theory Spec2Isabelle
  imports Complex_Main
begin

section \<open>repo-doc: a shallow embedding of the analyzer and the health command\<close>

text \<open>
  The development follows three source files: \<^verbatim>\<open>internal/analyzer/analyzer.go\<close>
  (repository locator, pull-request list), \<^verbatim>\<open>cmd/health.go\<close> (text normalizer,
  sentiment classification, health aggregation and display) and the info command
  (\<^verbatim>\<open>runAnalyze\<close>, \<^verbatim>\<open>determinePRLimit\<close>).

  Conventions.
  \<^item> A Go \<^verbatim>\<open>string\<close> is a byte sequence: \<^typ>\<open>string\<close>.
  \<^item> A Go \<^verbatim>\<open>int\<close> is \<^typ>\<open>int\<close>; the program only compares and counts, far from
    the 64-bit bounds.
  \<^item> A Go \<^verbatim>\<open>float64\<close> is \<^typ>\<open>rat\<close>: finite values with exact arithmetic. The
    counters of a report are whole numbers and the thresholds are compared exactly, so
    rounding, infinities and NaN are outside the model.
  \<^item> A function that can fail returns a sum, \<open>Inl\<close> the error; a run-time panic is the
    value \<open>Panic\<close> of the type \<open>outcome\<close>.
  \<^item> The remote services (GitHub REST API, the generative-language API) are parameters;
    every request is appended to a log, so that "no call was made" is a statement
    about the log.
\<close>

subsection \<open>The Go library functions the program calls\<close>

text \<open>\<^verbatim>\<open>strings.HasPrefix\<close>, \<^verbatim>\<open>strings.HasSuffix\<close>, \<^verbatim>\<open>strings.Contains\<close>,
  \<^verbatim>\<open>strings.TrimPrefix\<close>.\<close>

fun hasPrefix :: "string \<Rightarrow> string \<Rightarrow> bool" where
  "hasPrefix s [] = True"
| "hasPrefix [] (p # ps) = False"
| "hasPrefix (c # cs) (p # ps) = (c = p \<and> hasPrefix cs ps)"

definition hasSuffix :: "string \<Rightarrow> string \<Rightarrow> bool" where
  "hasSuffix s suf = hasPrefix (rev s) (rev suf)"

fun contains :: "string \<Rightarrow> string \<Rightarrow> bool" where
  "contains [] sub = (sub = [])"
| "contains (c # cs) sub = (hasPrefix (c # cs) sub \<or> contains cs sub)"

definition trimPrefix :: "string \<Rightarrow> string \<Rightarrow> string" where
  "trimPrefix s p = (if hasPrefix s p then drop (length p) s else s)"

text \<open>\<^verbatim>\<open>strings.Split(s, sep)\<close> for a separator of one byte: the pieces between the
  separators, one piece (the empty one) for the empty string.\<close>

fun splitOn :: "char \<Rightarrow> string \<Rightarrow> string list" where
  "splitOn sep [] = [[]]"
| "splitOn sep (c # cs) =
     (if c = sep then [] # splitOn sep cs
      else (case splitOn sep cs of
              w # ws \<Rightarrow> (c # w) # ws
            | [] \<Rightarrow> [[c]]))"

text \<open>\<^verbatim>\<open>strings.Join\<close>.\<close>

fun joinWith :: "string \<Rightarrow> string list \<Rightarrow> string" where
  "joinWith sep [] = []"
| "joinWith sep [w] = w"
| "joinWith sep (w # v # ws) = w @ sep @ joinWith sep (v # ws)"

text \<open>\<^verbatim>\<open>strings.Index\<close> and \<^verbatim>\<open>strings.LastIndex\<close> for a one-byte needle; Go's
  \<open>-1\<close> is \<open>None\<close>.\<close>

fun indexByte :: "char \<Rightarrow> string \<Rightarrow> nat option" where
  "indexByte x [] = None"
| "indexByte x (c # cs) = (if c = x then Some 0 else map_option Suc (indexByte x cs))"

definition lastIndexByte :: "char \<Rightarrow> string \<Rightarrow> nat option" where
  "lastIndexByte x s = map_option (\<lambda>i. length s - 1 - i) (indexByte x (rev s))"

text \<open>\<^verbatim>\<open>strings.ToLower\<close> on ASCII letters. Author handles are GitHub logins (ASCII
  letters, digits, hyphens, and the suffix \<^verbatim>\<open>[bot]\<close>); Go's lower-casing of letters
  outside ASCII is not modelled.\<close>

definition lowerByte :: "char \<Rightarrow> char" where
  "lowerByte c =
     (let n = (of_char c :: nat) in if 65 \<le> n \<and> n \<le> 90 then char_of (n + 32) else c)"

definition toLower :: "string \<Rightarrow> string" where
  "toLower s = map lowerByte s"

subsubsection \<open>White space as \<^verbatim>\<open>unicode.IsSpace\<close> sees it, on UTF-8 bytes\<close>

text \<open>
  \<^verbatim>\<open>strings.Fields\<close> and \<^verbatim>\<open>strings.TrimSpace\<close> decode UTF-8 and test each rune with
  \<^verbatim>\<open>unicode.IsSpace\<close>: the six ASCII spaces, U+0085, U+00A0, U+1680, U+2000 to U+200A,
  U+2028, U+2029, U+202F, U+205F and U+3000. Each of the non-ASCII ones is a fixed
  sequence of two or three bytes that starts with a lead byte. A lead byte is never
  inside another well-formed sequence, and Go's decoder steps over one byte on
  ill-formed input, so the decoder stands at the start of every occurrence of such a
  sequence: on bytes, a white-space rune is exactly an occurrence of one of the
  sequences below. \<open>spaceWidth s\<close> is the width of the white-space rune at the head
  of \<open>s\<close>, \<open>0\<close> when there is none.
\<close>

definition asciiSpace :: "char \<Rightarrow> bool" where
  "asciiSpace c =
     (c = CHR 0x09 \<or> c = CHR 0x0A \<or> c = CHR 0x0B \<or> c = CHR 0x0C \<or> c = CHR 0x0D \<or> c = CHR 0x20)"

definition spaceTail2 :: "char \<Rightarrow> char \<Rightarrow> char \<Rightarrow> bool" where
  "spaceTail2 c d e =
     ((c = CHR 0xE1 \<and> d = CHR 0x9A \<and> e = CHR 0x80) \<or>
      (c = CHR 0xE2 \<and> d = CHR 0x80 \<and>
         (e = CHR 0x80 \<or> e = CHR 0x81 \<or> e = CHR 0x82 \<or> e = CHR 0x83 \<or> e = CHR 0x84 \<or>
          e = CHR 0x85 \<or> e = CHR 0x86 \<or> e = CHR 0x87 \<or> e = CHR 0x88 \<or> e = CHR 0x89 \<or>
          e = CHR 0x8A \<or> e = CHR 0xA8 \<or> e = CHR 0xA9 \<or> e = CHR 0xAF)) \<or>
      (c = CHR 0xE2 \<and> d = CHR 0x81 \<and> e = CHR 0x9F) \<or>
      (c = CHR 0xE3 \<and> d = CHR 0x80 \<and> e = CHR 0x80))"

fun spaceWidth :: "string \<Rightarrow> nat" where
  "spaceWidth [] = 0"
| "spaceWidth [c] = (if asciiSpace c then 1 else 0)"
| "spaceWidth [c, d] =
     (if asciiSpace c then 1
      else if c = CHR 0xC2 \<and> (d = CHR 0x85 \<or> d = CHR 0xA0) then 2 else 0)"
| "spaceWidth (c # d # e # es) =
     (if asciiSpace c then 1
      else if c = CHR 0xC2 \<and> (d = CHR 0x85 \<or> d = CHR 0xA0) then 2
      else if spaceTail2 c d e then 3 else 0)"

text \<open>The same test at the end of a string (\<^verbatim>\<open>utf8.DecodeLastRuneInString\<close>).\<close>

definition spaceWidthLast :: "string \<Rightarrow> nat" where
  "spaceWidthLast s =
     (case rev s of
        [] \<Rightarrow> 0
      | [c] \<Rightarrow> (if asciiSpace c then 1 else 0)
      | [d, c] \<Rightarrow>
          (if asciiSpace d then 1
           else if c = CHR 0xC2 \<and> (d = CHR 0x85 \<or> d = CHR 0xA0) then 2 else 0)
      | e # d # c # _ \<Rightarrow>
          (if asciiSpace e then 1
           else if d = CHR 0xC2 \<and> (e = CHR 0x85 \<or> e = CHR 0xA0) then 2
           else if spaceTail2 c d e then 3 else 0))"

text \<open>\<^verbatim>\<open>strings.Fields\<close>: the maximal runs of bytes between white-space runes.
  \<open>cur\<close> is the field being read.\<close>

fun fieldsFrom :: "string \<Rightarrow> string \<Rightarrow> string list" where
  "fieldsFrom cur [] = (if cur = [] then [] else [cur])"
| "fieldsFrom cur (c # cs) =
     (case spaceWidth (c # cs) of
        0 \<Rightarrow> fieldsFrom (cur @ [c]) cs
      | Suc k \<Rightarrow> (if cur = [] then [] else [cur]) @ fieldsFrom [] (drop k cs))"

definition Fields :: "string \<Rightarrow> string list" where
  "Fields s = fieldsFrom [] s"

text \<open>\<^verbatim>\<open>strings.TrimSpace\<close>: leading, then trailing white space removed.\<close>

fun trimLeftSpace :: "string \<Rightarrow> string" where
  "trimLeftSpace [] = []"
| "trimLeftSpace (c # cs) =
     (case spaceWidth (c # cs) of
        0 \<Rightarrow> c # cs
      | Suc k \<Rightarrow> trimLeftSpace (drop k cs))"

function trimRightSpace :: "string \<Rightarrow> string" where
  "trimRightSpace s =
     (if s = [] \<or> spaceWidthLast s = 0 then s
      else trimRightSpace (take (length s - spaceWidthLast s) s))"
  by pat_completeness auto
termination
  by (relation "measure length") auto

definition trimSpace :: "string \<Rightarrow> string" where
  "trimSpace s = trimRightSpace (trimLeftSpace s)"

subsubsection \<open>\<^verbatim>\<open>Regexp.ReplaceAllString\<close>\<close>

text \<open>
  Go's regular expressions match leftmost-first. \<open>replaceAll m repl s\<close> scans \<open>s\<close>
  from the left; \<open>m t\<close> is the length of the match that starts at the head of the
  remaining text \<open>t\<close>, if the expression matches there. A match is replaced by
  \<open>repl\<close> and the scan goes on behind it; otherwise one byte is copied. None of the
  four expressions of the normalizer matches the empty string or looks at the text
  before the match, and none has a multi-byte literal, so bytes and runes agree.
\<close>

fun replaceAll :: "(string \<Rightarrow> nat option) \<Rightarrow> string \<Rightarrow> string \<Rightarrow> string" where
  "replaceAll m repl [] = []"
| "replaceAll m repl (c # cs) =
     (case m (c # cs) of
        None \<Rightarrow> c # replaceAll m repl cs
      | Some n \<Rightarrow> repl @ replaceAll m repl (drop (n - 1) cs))"

abbreviation backtick :: char where
  "backtick \<equiv> CHR 0x60"

definition fence :: string where
  "fence = [backtick, backtick, backtick]"

text \<open>Index of the first triple backtick.\<close>

fun indexFence :: "string \<Rightarrow> nat option" where
  "indexFence [] = None"
| "indexFence (c # cs) =
     (if hasPrefix (c # cs) fence then Some 0 else map_option Suc (indexFence cs))"

text \<open>The expression \<^verbatim>\<open>(?s)```.*?```\<close> with the backtick written as a byte: an opening
  fence, the shortest text (newlines included) up to the next fence, that fence.\<close>

definition fencedBlock :: "string \<Rightarrow> nat option" where
  "fencedBlock s =
     (if hasPrefix s fence then map_option (\<lambda>j. 3 + j + 3) (indexFence (drop 3 s))
      else None)"

text \<open>The inline-code expression: a backtick, one or more bytes other than a backtick
  (as many as there are), a backtick.\<close>

definition inlineCode :: "string \<Rightarrow> nat option" where
  "inlineCode s =
     (case s of
        [] \<Rightarrow> None
      | c # cs \<Rightarrow>
          if c = backtick then
            (let run = takeWhile (\<lambda>x. x \<noteq> backtick) cs
             in if run \<noteq> [] \<and> length run < length cs then Some (length run + 2) else None)
          else None)"

text \<open>\<^verbatim>\<open>\s\<close> of Go's regular expressions is ASCII only and has no vertical tab.\<close>

definition reSpace :: "char \<Rightarrow> bool" where
  "reSpace c = (c = CHR 0x09 \<or> c = CHR 0x0A \<or> c = CHR 0x0C \<or> c = CHR 0x0D \<or> c = CHR 0x20)"

text \<open>\<^verbatim>\<open>https?://\S+\<close>.\<close>

definition urlMatch :: "string \<Rightarrow> nat option" where
  "urlMatch s =
     (let scheme = (if hasPrefix s ''https://'' then Some 8
                    else if hasPrefix s ''http://'' then Some 7 else None)
      in case scheme of
           None \<Rightarrow> None
         | Some k \<Rightarrow>
             (let run = takeWhile (\<lambda>x. \<not> reSpace x) (drop k s)
              in if run = [] then None else Some (k + length run)))"

text \<open>\<^verbatim>\<open>[#*\-_=~]+\<close>.\<close>

definition isPunct :: "char \<Rightarrow> bool" where
  "isPunct c =
     (c = CHR ''#'' \<or> c = CHR ''*'' \<or> c = CHR ''-'' \<or> c = CHR ''_'' \<or> c = CHR ''='' \<or> c = CHR ''~'')"

definition punctRun :: "string \<Rightarrow> nat option" where
  "punctRun s = (let run = takeWhile isPunct s in if run = [] then None else Some (length run))"

subsection \<open>The text normalizer (\<^verbatim>\<open>cleanTextForAnalysis\<close>)\<close>

definition cleanTextForAnalysis :: "string \<Rightarrow> string" where
  "cleanTextForAnalysis text =
     (let text1 = replaceAll fencedBlock '' '' text;
          text2 = replaceAll inlineCode '' '' text1;
          text3 = replaceAll urlMatch '' '' text2;
          text4 = replaceAll punctRun '' '' text3;
          text5 = joinWith '' '' (Fields text4)
      in trimSpace text5)"

subsection \<open>Outcomes, remote calls and their log\<close>

text \<open>A Go function either returns or panics (an index or slice out of range, a nil
  pointer); nothing in the program recovers from a panic, so a panic ends the run.\<close>

datatype 'a outcome = Panic | Return 'a

text \<open>The requests the program sends to the GitHub REST API through the client
  library, and the library's answers. Pointer fields of the library's structs are
  options (\<open>None\<close> is \<^verbatim>\<open>nil\<close>). A time stamp is the number of nanoseconds since
  the zero instant of \<^verbatim>\<open>time.Time\<close>, so \<^verbatim>\<open>IsZero\<close> is "equals 0"; a creation
  time, which the program only formats, is held as the text its \<^verbatim>\<open>Format\<close> call
  returns.\<close>

datatype gh_call =
    ReposGet string string
  | PullsList string string int
  | PullsGet string string int
  | IssuesListComments string string int
  | PullsListComments string string int
  | PullsIsMerged string string int

datatype gh_error = ApiError string

type_synonym timestamp = int

record raw_repo =
  rName :: "string option"
  rFullName :: "string option"
  rDescription :: "string option"
  rStargazersCount :: "int option"
  rForksCount :: "int option"
  rOpenIssuesCount :: "int option"
  rLanguage :: "string option"
  rCreatedAt :: "string option"
  rUpdatedAt :: "string option"

record raw_pr =
  prNumber :: "int option"
  prTitle :: "string option"
  prState :: "string option"
  prUser :: "string option option"
  prMergedAt :: "timestamp option"
  prBody :: "string option"
  prCreatedAt :: "string option"

record raw_comment =
  cBody :: "string option"
  cUser :: "string option option"
  cCreatedAt :: "string option"

record github =
  repos_get :: "string \<Rightarrow> string \<Rightarrow> gh_error + raw_repo"
  pulls_list :: "string \<Rightarrow> string \<Rightarrow> int \<Rightarrow> gh_error + raw_pr list"
  pulls_get :: "string \<Rightarrow> string \<Rightarrow> int \<Rightarrow> gh_error + raw_pr"
  issues_list_comments :: "string \<Rightarrow> string \<Rightarrow> int \<Rightarrow> gh_error + raw_comment list"
  pulls_list_comments :: "string \<Rightarrow> string \<Rightarrow> int \<Rightarrow> gh_error + raw_comment list"
  pulls_is_merged :: "string \<Rightarrow> string \<Rightarrow> int \<Rightarrow> gh_error + bool"

text \<open>The library's getters: the zero value for a nil pointer.\<close>

definition GetNumber :: "raw_pr \<Rightarrow> int" where
  "GetNumber pr = (case prNumber pr of None \<Rightarrow> 0 | Some n \<Rightarrow> n)"

definition GetTitle :: "raw_pr \<Rightarrow> string" where
  "GetTitle pr = (case prTitle pr of None \<Rightarrow> [] | Some t \<Rightarrow> t)"

definition GetState :: "raw_pr \<Rightarrow> string" where
  "GetState pr = (case prState pr of None \<Rightarrow> [] | Some t \<Rightarrow> t)"

definition GetMergedAt :: "raw_pr \<Rightarrow> timestamp" where
  "GetMergedAt pr = (case prMergedAt pr of None \<Rightarrow> 0 | Some t \<Rightarrow> t)"

definition IsZero :: "timestamp \<Rightarrow> bool" where
  "IsZero t = (t = 0)"

subsection \<open>The analyzer package\<close>

record RepoInfo =
  Name :: string
  FullName :: string
  Description :: string
  Stars :: int
  Forks :: int
  OpenIssues :: int
  Language :: string
  CreatedAt :: string
  UpdatedAt :: string

record PRInfo =
  Number :: int
  Title :: string
  State :: string
  Author :: string
  Merged :: bool

record DiscussionMessage =
  mAuthor :: string
  Body :: string
  mCreatedAt :: string
  IsPRBody :: bool

record PRDiscussion =
  PRNumber :: int
  dTitle :: string
  dAuthor :: string
  dState :: string
  dMerged :: bool
  dMessages :: "DiscussionMessage list"

datatype parse_error = InvalidRepositoryFormat

definition ParseRepoURL :: "string \<Rightarrow> parse_error + string \<times> string" where
  "ParseRepoURL url =
     (let parts = splitOn CHR ''/'' url
      in if \<not> contains url ''github.com'' \<and> contains url ''/'' \<and> length parts = 2
         then Inr (parts ! 0, parts ! 1)
         else
           (let url1 = trimPrefix url ''https://'';
                url2 = trimPrefix url1 ''http://'';
                url3 = trimPrefix url2 ''github.com/'';
                parts = splitOn CHR ''/'' url3
            in if length parts < 2 then Inl InvalidRepositoryFormat
               else Inr (parts ! 0, parts ! 1)))"

definition safeString :: "string option \<Rightarrow> string" where
  "safeString s = (case s of None \<Rightarrow> [] | Some v \<Rightarrow> v)"

definition safeInt :: "int option \<Rightarrow> int" where
  "safeInt i = (case i of None \<Rightarrow> 0 | Some v \<Rightarrow> v)"

definition FetchRepoInfo ::
  "github \<Rightarrow> string \<Rightarrow> string \<Rightarrow> gh_call list \<Rightarrow> (gh_error + RepoInfo) \<times> gh_call list" where
  "FetchRepoInfo gh owner repo calls =
     (case repos_get gh owner repo of
        Inl err \<Rightarrow> (Inl err, calls @ [ReposGet owner repo])
      | Inr repository \<Rightarrow>
          (Inr \<lparr> Name = safeString (rName repository),
                 FullName = safeString (rFullName repository),
                 Description = safeString (rDescription repository),
                 Stars = safeInt (rStargazersCount repository),
                 Forks = safeInt (rForksCount repository),
                 OpenIssues = safeInt (rOpenIssuesCount repository),
                 Language = safeString (rLanguage repository),
                 CreatedAt = safeString (rCreatedAt repository),
                 UpdatedAt = safeString (rUpdatedAt repository) \<rparr>,
           calls @ [ReposGet owner repo]))"

text \<open>\<^verbatim>\<open>IsMerged\<close>: the dedicated merge-check endpoint; an error counts as "not
  merged".\<close>

definition IsMerged ::
  "github \<Rightarrow> string \<Rightarrow> string \<Rightarrow> int \<Rightarrow> gh_call list \<Rightarrow> bool \<times> gh_call list" where
  "IsMerged gh owner repo prNum calls =
     (case pulls_is_merged gh owner repo prNum of
        Inl err \<Rightarrow> (False, calls @ [PullsIsMerged owner repo prNum])
      | Inr isMerged \<Rightarrow> (isMerged, calls @ [PullsIsMerged owner repo prNum]))"

text \<open>The login of a user pointer, the empty string when the user or the login is
  nil.\<close>

definition loginOf :: "string option option \<Rightarrow> string" where
  "loginOf u = (case u of Some (Some login) \<Rightarrow> login | _ \<Rightarrow> [])"

definition toPRInfo :: "raw_pr \<Rightarrow> PRInfo" where
  "toPRInfo pr =
     (let author = loginOf (prUser pr);
          isMerged = (GetState pr = ''closed'' \<and> \<not> IsZero (GetMergedAt pr))
      in \<lparr> Number = GetNumber pr, Title = GetTitle pr, State = GetState pr,
           Author = author, Merged = isMerged \<rparr>)"

text \<open>The loop of \<^verbatim>\<open>FetchPullRequests\<close>: it stops as soon as \<open>limit\<close> entries are
  collected.\<close>

fun collectPRs :: "int \<Rightarrow> raw_pr list \<Rightarrow> PRInfo list \<Rightarrow> PRInfo list" where
  "collectPRs limit [] prInfos = prInfos"
| "collectPRs limit (pr # prs) prInfos =
     (if int (length prInfos) \<ge> limit then prInfos
      else collectPRs limit prs (prInfos @ [toPRInfo pr]))"

definition FetchPullRequests ::
  "github \<Rightarrow> string \<Rightarrow> string \<Rightarrow> int \<Rightarrow> gh_call list \<Rightarrow> (gh_error + PRInfo list) \<times> gh_call list" where
  "FetchPullRequests gh owner repo limit calls =
     (case pulls_list gh owner repo limit of
        Inl err \<Rightarrow> (Inl err, calls @ [PullsList owner repo limit])
      | Inr prs \<Rightarrow> (Inr (collectPRs limit prs []), calls @ [PullsList owner repo limit]))"

text \<open>\<^verbatim>\<open>FetchPRDiscussions\<close>. The three secondary fetches drop their errors: a failed
  call yields nil, read as "no body" or "no comments". Formatting the creation time
  dereferences its pointer, a panic when it is nil.\<close>

fun commentMessages :: "raw_comment list \<Rightarrow> DiscussionMessage list outcome" where
  "commentMessages [] = Return []"
| "commentMessages (comment # comments) =
     (case cBody comment of
        None \<Rightarrow> commentMessages comments
      | Some body \<Rightarrow>
          if body = [] then commentMessages comments
          else (case cCreatedAt comment of
                  None \<Rightarrow> Panic
                | Some created \<Rightarrow>
                    (case commentMessages comments of
                       Panic \<Rightarrow> Panic
                     | Return msgs \<Rightarrow>
                         Return (\<lparr> mAuthor = loginOf (cUser comment), Body = body,
                                   mCreatedAt = created, IsPRBody = False \<rparr> # msgs))))"

definition bodyMessage :: "PRInfo \<Rightarrow> gh_error + raw_pr \<Rightarrow> DiscussionMessage list outcome" where
  "bodyMessage pr answer =
     (case answer of
        Inl err \<Rightarrow> Return []
      | Inr prDetail \<Rightarrow>
          (case prBody prDetail of
             None \<Rightarrow> Return []
           | Some body \<Rightarrow>
               if body = [] then Return []
               else (case prCreatedAt prDetail of
                       None \<Rightarrow> Panic
                     | Some created \<Rightarrow>
                         Return [\<lparr> mAuthor = Author pr, Body = body,
                                   mCreatedAt = created, IsPRBody = True \<rparr>])))"

definition commentsOf :: "gh_error + raw_comment list \<Rightarrow> raw_comment list" where
  "commentsOf answer = (case answer of Inl err \<Rightarrow> [] | Inr comments \<Rightarrow> comments)"

fun discussionsOf ::
  "github \<Rightarrow> string \<Rightarrow> string \<Rightarrow> PRInfo list \<Rightarrow> gh_call list \<Rightarrow> (PRDiscussion list \<times> gh_call list) outcome" where
  "discussionsOf gh owner repo [] calls = Return ([], calls)"
| "discussionsOf gh owner repo (pr # prs) calls =
     (case bodyMessage pr (pulls_get gh owner repo (Number pr)) of
        Panic \<Rightarrow> Panic
      | Return m1 \<Rightarrow>
          (case commentMessages (commentsOf (issues_list_comments gh owner repo (Number pr))) of
             Panic \<Rightarrow> Panic
           | Return m2 \<Rightarrow>
               (case commentMessages (commentsOf (pulls_list_comments gh owner repo (Number pr))) of
                  Panic \<Rightarrow> Panic
                | Return m3 \<Rightarrow>
                    (case discussionsOf gh owner repo prs
                            (calls @ [PullsGet owner repo (Number pr),
                                    IssuesListComments owner repo (Number pr),
                                    PullsListComments owner repo (Number pr)]) of
                       Panic \<Rightarrow> Panic
                     | Return (ds, calls') \<Rightarrow>
                         Return (\<lparr> PRNumber = Number pr, dTitle = Title pr, dAuthor = Author pr,
                                   dState = State pr, dMerged = Merged pr,
                                   dMessages = m1 @ m2 @ m3 \<rparr> # ds, calls')))))"

definition FetchPRDiscussions ::
  "github \<Rightarrow> string \<Rightarrow> string \<Rightarrow> int \<Rightarrow> gh_call list \<Rightarrow>
     ((gh_error + PRDiscussion list) \<times> gh_call list) outcome" where
  "FetchPRDiscussions gh owner repo limit calls =
     (case FetchPullRequests gh owner repo limit calls of
        (Inl err, calls1) \<Rightarrow> Return (Inl err, calls1)
      | (Inr prs, calls1) \<Rightarrow>
          (case discussionsOf gh owner repo prs calls1 of
             Panic \<Rightarrow> Panic
           | Return (ds, calls2) \<Rightarrow> Return (Inr ds, calls2)))"

subsection \<open>The info command\<close>

datatype fatal =
    ErrorParsingRepositoryURL
  | PRLimitMustBe100OrLess
  | ErrorFetchingRepositoryInfo
  | ErrorFetchingPullRequests
  | ErrorDisplayingOutput
  | GeminiKeyRequired
  | ErrorFetchingPRDiscussions

datatype run_result = Fatal fatal | Finished

text \<open>\<^verbatim>\<open>determinePRLimit\<close>: \<open>prsFlagSet\<close> is \<^verbatim>\<open>cmd.Flags().Changed("prs")\<close>, \<open>prs\<close> the
  value of the flag.\<close>

definition determinePRLimit :: "bool \<Rightarrow> int \<Rightarrow> int" where
  "determinePRLimit prsFlagSet prs =
     (if \<not> prsFlagSet then 0 else if prs = -1 then 5 else prs)"

text \<open>\<^verbatim>\<open>runAnalyze\<close>. The presenter (package \<^verbatim>\<open>internal/output\<close>) is the parameter
  \<open>display\<close>, \<open>Some\<close> its error. Building the client (\<^verbatim>\<open>analyzer.New\<close>) sends nothing.
  The result comes with the list of the requests sent.\<close>

definition runAnalyze ::
  "github \<Rightarrow> (RepoInfo \<Rightarrow> PRInfo list \<Rightarrow> string option) \<Rightarrow> string \<Rightarrow> bool \<Rightarrow> int \<Rightarrow>
     run_result \<times> gh_call list" where
  "runAnalyze gh display repoURL prsFlagSet prs =
     (case ParseRepoURL repoURL of
        Inl err \<Rightarrow> (Fatal ErrorParsingRepositoryURL, [])
      | Inr (owner, repo) \<Rightarrow>
          (let prLimit = determinePRLimit prsFlagSet prs
           in if prLimit > 100 then (Fatal PRLimitMustBe100OrLess, [])
              else
                (case FetchRepoInfo gh owner repo [] of
                   (Inl err, calls1) \<Rightarrow> (Fatal ErrorFetchingRepositoryInfo, calls1)
                 | (Inr repoInfo, calls1) \<Rightarrow>
                     (case (if prLimit > 0 then FetchPullRequests gh owner repo prLimit calls1
                            else (Inr [], calls1)) of
                        (Inl err, calls2) \<Rightarrow> (Fatal ErrorFetchingPullRequests, calls2)
                      | (Inr prInfos, calls2) \<Rightarrow>
                          (case display repoInfo prInfos of
                             Some err \<Rightarrow> (Fatal ErrorDisplayingOutput, calls2)
                           | None \<Rightarrow> (Finished, calls2))))))"

subsection \<open>The health command: the classifier boundary\<close>

text \<open>
  The generative-language service. \<open>apiKey\<close> is the environment variable
  \<^verbatim>\<open>GEMINI_API_KEY\<close>, \<open>clientOk\<close> says whether \<^verbatim>\<open>genai.NewClient\<close> succeeds.
  \<open>generate n prompt\<close> is the answer of \<^verbatim>\<open>GenerateContent\<close> to the request number
  \<open>n\<close> of the run: an error (a timeout of the context among them) or the parts of
  each candidate (a candidate is taken to have a content). \<open>unmarshal\<close> is \<^verbatim>\<open>json.Unmarshal\<close> into the struct with the fields
  \<^verbatim>\<open>sentiment\<close> and \<^verbatim>\<open>score\<close>, \<open>None\<close> its error. The prompts sent are logged.
\<close>

datatype part = Text string | OtherPart

datatype gen_result = GenerateFailed | Response "part list list"

record gemini =
  apiKey :: string
  clientOk :: bool
  generate :: "nat \<Rightarrow> string \<Rightarrow> gen_result"
  unmarshal :: "string \<Rightarrow> (string \<times> rat) option"

datatype gem_error =
    KeyNotSet
  | FailedToCreateClient
  | FailedToGenerateContent
  | NoContentInResponse
  | InvalidJSONResponse
  | FailedToParseJSON
  | InvalidSentimentValue string
  | ScoreOutOfRange rat

definition promptFor :: "string \<Rightarrow> string" where
  "promptFor cleanText =
     ''Analyze the sentiment of this GitHub PR discussion text and respond with a JSON object containing ''
     @ [CHR 0x22] @ ''sentiment'' @ [CHR 0x22] @ '' (one of: ''
     @ [CHR 0x22] @ ''positive'' @ [CHR 0x22] @ '', ''
     @ [CHR 0x22] @ ''neutral'' @ [CHR 0x22] @ '', ''
     @ [CHR 0x22] @ ''negative'' @ [CHR 0x22] @ '') and ''
     @ [CHR 0x22] @ ''score'' @ [CHR 0x22]
     @ '' (0.0 to 1.0, where 0 is most negative and 1 is most positive).''
     @ [CHR 0x0A, CHR 0x0A] @ ''Text to analyze:'' @ [CHR 0x0A] @ cleanText
     @ [CHR 0x0A, CHR 0x0A] @ ''Respond with only the JSON object, nothing else.''"

text \<open>A slice expression \<^verbatim>\<open>s[lo:hi]\<close> panics unless \<open>lo \<le> hi \<le> len(s)\<close>.\<close>

definition sliceStr :: "string \<Rightarrow> nat \<Rightarrow> nat \<Rightarrow> string outcome" where
  "sliceStr s lo hi =
     (if lo \<le> hi \<and> hi \<le> length s then Return (take (hi - lo) (drop lo s)) else Panic)"

definition textOf :: "part \<Rightarrow> string" where
  "textOf p = (case p of Text t \<Rightarrow> t | OtherPart \<Rightarrow> [])"

definition analyzeWithGemini ::
  "gemini \<Rightarrow> string \<Rightarrow> string list \<Rightarrow> (gem_error + string \<times> rat) outcome \<times> string list" where
  "analyzeWithGemini gem text sent =
     (let cleanText = cleanTextForAnalysis text
      in if cleanText = [] then (Return (Inr (''neutral'', 1 / 2)), sent)
         else if apiKey gem = [] then (Return (Inl KeyNotSet), sent)
         else if \<not> clientOk gem then (Return (Inl FailedToCreateClient), sent)
         else
           (let prompt = promptFor cleanText;
                sent1 = sent @ [prompt]
            in case generate gem (length sent) prompt of
                 GenerateFailed \<Rightarrow> (Return (Inl FailedToGenerateContent), sent1)
               | Response candidates \<Rightarrow>
                   (case candidates of
                      [] \<Rightarrow> (Return (Inl NoContentInResponse), sent1)
                    | parts # others \<Rightarrow>
                        if parts = [] then (Return (Inl NoContentInResponse), sent1)
                        else
                          (let responseText = concat (map textOf parts)
                           in case indexByte CHR ''{'' responseText of
                                None \<Rightarrow> (Return (Inl InvalidJSONResponse), sent1)
                              | Some jsonStart \<Rightarrow>
                                  (case lastIndexByte CHR ''}'' responseText of
                                     None \<Rightarrow> (Return (Inl InvalidJSONResponse), sent1)
                                   | Some jsonEnd \<Rightarrow>
                                       (case sliceStr responseText jsonStart (jsonEnd + 1) of
                                          Panic \<Rightarrow> (Panic, sent1)
                                        | Return jsonStr \<Rightarrow>
                                            (case unmarshal gem jsonStr of
                                               None \<Rightarrow> (Return (Inl FailedToParseJSON), sent1)
                                             | Some (sentiment, score) \<Rightarrow>
                                                 if sentiment \<noteq> ''positive'' \<and> sentiment \<noteq> ''neutral''
                                                    \<and> sentiment \<noteq> ''negative''
                                                 then (Return (Inl (InvalidSentimentValue sentiment)), sent1)
                                                 else if score < 0 \<or> score > 1
                                                 then (Return (Inl (ScoreOutOfRange score)), sent1)
                                                 else (Return (Inr (sentiment, score)), sent1))))))))"

definition analyzeSentiment ::
  "gemini \<Rightarrow> string \<Rightarrow> string list \<Rightarrow> (string \<times> rat) outcome \<times> string list" where
  "analyzeSentiment gem text sent =
     (if text = [] then (Return (''neutral'', 1 / 2), sent)
      else (case analyzeWithGemini gem text sent of
              (Panic, sent1) \<Rightarrow> (Panic, sent1)
            | (Return (Inl err), sent1) \<Rightarrow> (Return (''neutral'', 1 / 2), sent1)
            | (Return (Inr (sentiment, score)), sent1) \<Rightarrow> (Return (sentiment, score), sent1)))"

subsection \<open>The health command: bot filter and aggregation\<close>

definition botNames :: "string list" where
  "botNames =
     [''dependabot'', ''github-actions'', ''github[bot]'', ''actions-user'',
      ''actions'' @ [CHR 0x5C] @ ''[bot'' @ [CHR 0x5C] @ '']'',
      ''travis'', ''circleci'', ''jenkins'', ''gitlab-ci'', ''azure-pipelines'', ''circleci[bot]'',
      ''codecov'', ''codeclimate'', ''sonarcloud'', ''snyk-bot'', ''dependabot-preview'',
      ''bot'', ''ci'', ''cd'', ''deploy'', ''test'', ''automation'', ''bors-'', ''tldr-'',
      ''aws-'', ''gcp-'', ''azure-'', ''google-cloud'', ''aws-sdk'',
      ''renovate'', ''greenkeeper'', ''hound'', ''stale'', ''mergify'', ''allcontributors'',
      ''code-rabbit'', ''app/'', ''app'' @ [CHR 0x5C] @ ''/'']"

fun containsAny :: "string \<Rightarrow> string list \<Rightarrow> bool" where
  "containsAny author [] = False"
| "containsAny author (name # names) =
     (if contains author name then True else containsAny author names)"

definition isBotComment :: "string \<Rightarrow> bool" where
  "isBotComment author0 =
     (let author = toLower author0
      in if containsAny author botNames then True
         else if hasSuffix author ''[bot]'' \<or> hasSuffix author ''-bot'' \<or>
                 hasSuffix author ''-ci'' \<or> hasSuffix author ''-deploy'' then True
         else False)"

record MessageAnalysis =
  Content :: string
  Sentiment :: string
  Score :: rat

record HealthReport =
  PRCount :: int
  MessageCount :: int
  PositiveScore :: rat
  NegativeScore :: rat
  NeutralScore :: rat
  AverageSentiment :: rat
  Messages :: "MessageAnalysis list"

text \<open>The variables of the loop of \<^verbatim>\<open>analyzePRHealth\<close>.\<close>

record health_acc =
  report :: HealthReport
  totalScore :: rat
  messageCount :: int

text \<open>The body of the inner loop behind the classification: the label (derived from the
  score when the classifier gave none), the new entry, the counter of its label.\<close>

definition recordMessage :: "health_acc \<Rightarrow> DiscussionMessage \<Rightarrow> string \<Rightarrow> rat \<Rightarrow> health_acc" where
  "recordMessage acc msg label score =
     (let sentimentLabel =
            (if label = [] then
               (if score > 7 / 10 then ''positive''
                else if score < 4 / 10 then ''negative''
                else ''neutral'')
             else label);
          msgAnalysis = \<lparr> Content = Body msg, Sentiment = sentimentLabel, Score = score \<rparr>;
          r1 = (report acc)\<lparr> Messages := Messages (report acc) @ [msgAnalysis] \<rparr>;
          r2 = (if sentimentLabel = ''positive'' then r1\<lparr> PositiveScore := PositiveScore r1 + 1 \<rparr>
                else if sentimentLabel = ''negative'' then r1\<lparr> NegativeScore := NegativeScore r1 + 1 \<rparr>
                else r1\<lparr> NeutralScore := NeutralScore r1 + 1 \<rparr>)
      in \<lparr> report = r2, totalScore = totalScore acc + score, messageCount = messageCount acc + 1 \<rparr>)"

fun analyzeMessages ::
  "gemini \<Rightarrow> DiscussionMessage list \<Rightarrow> health_acc \<Rightarrow> string list \<Rightarrow> (health_acc \<times> string list) outcome" where
  "analyzeMessages gem [] acc sent = Return (acc, sent)"
| "analyzeMessages gem (msg # msgs) acc sent =
     (if Body msg = [] \<or> isBotComment (mAuthor msg) then analyzeMessages gem msgs acc sent
      else (case analyzeSentiment gem (Body msg) sent of
              (Panic, sent1) \<Rightarrow> Panic
            | (Return (sentimentLabel, score), sent1) \<Rightarrow>
                analyzeMessages gem msgs (recordMessage acc msg sentimentLabel score) sent1))"

fun analyzeDiscussions ::
  "gemini \<Rightarrow> PRDiscussion list \<Rightarrow> health_acc \<Rightarrow> string list \<Rightarrow> (health_acc \<times> string list) outcome" where
  "analyzeDiscussions gem [] acc sent = Return (acc, sent)"
| "analyzeDiscussions gem (d # ds) acc sent =
     (case analyzeMessages gem (dMessages d) acc sent of
        Panic \<Rightarrow> Panic
      | Return (acc1, sent1) \<Rightarrow> analyzeDiscussions gem ds acc1 sent1)"

definition finishReport :: "health_acc \<Rightarrow> HealthReport" where
  "finishReport acc =
     (let r1 = (report acc)\<lparr> MessageCount := int (length (Messages (report acc))) \<rparr>
      in if MessageCount r1 > 0
         then r1\<lparr> AverageSentiment := totalScore acc / of_int (MessageCount r1) \<rparr>
         else r1)"

definition analyzePRHealth ::
  "gemini \<Rightarrow> PRDiscussion list \<Rightarrow> string list \<Rightarrow> (HealthReport \<times> string list) outcome" where
  "analyzePRHealth gem discussions sent =
     (let report0 = \<lparr> PRCount = int (length discussions), MessageCount = 0, PositiveScore = 0,
                      NegativeScore = 0, NeutralScore = 0, AverageSentiment = 0, Messages = [] \<rparr>
      in case analyzeDiscussions gem discussions
                \<lparr> report = report0, totalScore = 0, messageCount = 0 \<rparr> sent of
           Panic \<Rightarrow> Panic
         | Return (acc, sent1) \<Rightarrow> Return (finishReport acc, sent1))"

subsection \<open>The health command: display\<close>

text \<open>What \<^verbatim>\<open>displayHealthReport\<close> prints, line by line; a number stands for its
  rendering with one decimal.\<close>

datatype verdict =
    NoMessagesToAnalyze
  | NeedsAttention
  | ExcellentHealth
  | GoodHealth
  | NeutralMostlyTechnical
  | MixedSentiment

datatype mark = CheckMark | CrossMark | DashMark

datatype out_line =
    NoMessagesFound
  | ReportHeader int int
  | RuleLine
  | SentimentHeading
  | PositiveLine rat
  | NeutralLine rat
  | NegativeLine rat
  | AverageLine rat
  | SampleHeading
  | SampleLine mark rat string
  | AssessmentHeading
  | VerdictLine verdict

text \<open>The loop over the sample messages: at most three are printed, a content of more
  than 100 bytes is cut to 97 and an ellipsis.\<close>

fun sampleLines :: "nat \<Rightarrow> MessageAnalysis list \<Rightarrow> out_line list" where
  "sampleLines printed [] = []"
| "sampleLines printed (msg # msgs) =
     (if printed \<ge> 3 then []
      else
        (let emoji = (if Sentiment msg = ''positive'' then CheckMark
                      else if Sentiment msg = ''negative'' then CrossMark
                      else DashMark);
             content = (if length (Content msg) > 100 then take 97 (Content msg) @ ''...''
                        else Content msg)
         in SampleLine emoji (Score msg) content # sampleLines (printed + 1) msgs))"

text \<open>The \<^verbatim>\<open>switch\<close> that ends \<^verbatim>\<open>displayHealthReport\<close> (the health assessment), case
  by case in the order of the source.\<close>

definition healthAssessment :: "HealthReport \<Rightarrow> verdict" where
  "healthAssessment r =
     (if MessageCount r = 0 then NoMessagesToAnalyze
      else if NegativeScore r / of_int (MessageCount r) > 5 / 10 then NeedsAttention
      else if PositiveScore r / of_int (MessageCount r) > 7 / 10 then ExcellentHealth
      else if AverageSentiment r > 6 / 10 then GoodHealth
      else if NeutralScore r / of_int (MessageCount r) > 7 / 10 then NeutralMostlyTechnical
      else MixedSentiment)"

definition displayHealthReport :: "HealthReport \<Rightarrow> out_line list" where
  "displayHealthReport r =
     (if MessageCount r = 0 then [NoMessagesFound]
      else
        (let total = (of_int (MessageCount r) :: rat);
             positivePct = (if MessageCount r > 0 then PositiveScore r / total * 100 else 0);
             neutralPct = (if MessageCount r > 0 then NeutralScore r / total * 100 else 0);
             negativePct = (if MessageCount r > 0 then NegativeScore r / total * 100 else 0)
         in [ReportHeader (PRCount r) (MessageCount r), RuleLine, SentimentHeading,
             PositiveLine positivePct, NeutralLine neutralPct, NegativeLine negativePct,
             AverageLine (AverageSentiment r), SampleHeading]
            @ sampleLines 0 (Messages r)
            @ [AssessmentHeading, VerdictLine (healthAssessment r), RuleLine]))"

text \<open>\<^verbatim>\<open>runHealthAnalysis\<close>, with the requests sent to GitHub, the prompts sent to the
  classifier and the lines printed.\<close>

definition runHealthAnalysis ::
  "gemini \<Rightarrow> github \<Rightarrow> string \<Rightarrow> int \<Rightarrow>
     (run_result \<times> gh_call list \<times> string list \<times> out_line list) outcome" where
  "runHealthAnalysis gem gh repoURL healthLimit0 =
     (if apiKey gem = [] then Return (Fatal GeminiKeyRequired, [], [], [])
      else
        (case ParseRepoURL repoURL of
           Inl err \<Rightarrow> Return (Fatal ErrorParsingRepositoryURL, [], [], [])
         | Inr (owner, repo) \<Rightarrow>
             (let healthLimit = (if healthLimit0 < 1 \<or> healthLimit0 > 20 then 5 else healthLimit0)
              in case FetchPRDiscussions gh owner repo healthLimit [] of
                   Panic \<Rightarrow> Panic
                 | Return (Inl err, calls) \<Rightarrow> Return (Fatal ErrorFetchingPRDiscussions, calls, [], [])
                 | Return (Inr discussions, calls) \<Rightarrow>
                     (case analyzePRHealth gem discussions [] of
                        Panic \<Rightarrow> Panic
                      | Return (rep, sent) \<Rightarrow>
                          Return (Finished, calls, sent, displayHealthReport rep)))))"

subsection \<open>The specification's reading of the verdict ladder\<close>

text \<open>The specification gives the verdict as a list of rules "condition, verdict" in a
  fixed priority order: the first rule whose condition holds decides.\<close>

primrec firstRule :: "(bool \<times> verdict) list \<Rightarrow> verdict \<Rightarrow> verdict" where
  "firstRule [] other = other"
| "firstRule (rule # rules) other = (if fst rule then snd rule else firstRule rules other)"

definition negativeFraction :: "HealthReport \<Rightarrow> rat" where
  "negativeFraction r = NegativeScore r / of_int (MessageCount r)"

definition positiveFraction :: "HealthReport \<Rightarrow> rat" where
  "positiveFraction r = PositiveScore r / of_int (MessageCount r)"

definition neutralFraction :: "HealthReport \<Rightarrow> rat" where
  "neutralFraction r = NeutralScore r / of_int (MessageCount r)"

definition verdictLadder :: "HealthReport \<Rightarrow> verdict" where
  "verdictLadder r =
     firstRule
       [(MessageCount r = 0, NoMessagesToAnalyze),
        (negativeFraction r > 5 / 10, NeedsAttention),
        (positiveFraction r > 7 / 10, ExcellentHealth),
        (AverageSentiment r > 6 / 10, GoodHealth),
        (neutralFraction r > 7 / 10, NeutralMostlyTechnical)]
       MixedSentiment"

text \<open>The verdicts among the printed lines.\<close>

fun verdictsOf :: "out_line list \<Rightarrow> verdict list" where
  "verdictsOf [] = []"
| "verdictsOf (VerdictLine v # ls) = v # verdictsOf ls"
| "verdictsOf (l # ls) = verdictsOf ls"

text \<open>The messages the aggregator analyzes: a body that is not empty, an author that
  the bot filter lets through.\<close>

definition analyzed :: "DiscussionMessage \<Rightarrow> bool" where
  "analyzed msg = (Body msg \<noteq> [] \<and> \<not> isBotComment (mAuthor msg))"

text \<open>The counters of a report against the labels of its messages.\<close>

definition labelCount :: "(string \<Rightarrow> bool) \<Rightarrow> HealthReport \<Rightarrow> rat" where
  "labelCount P r = of_nat (length (filter (\<lambda>m. P (Sentiment m)) (Messages r)))"

definition countsAgree :: "HealthReport \<Rightarrow> bool" where
  "countsAgree r =
     (PositiveScore r = labelCount (\<lambda>l. l = ''positive'') r \<and>
      NegativeScore r = labelCount (\<lambda>l. l = ''negative'') r \<and>
      NeutralScore r = labelCount (\<lambda>l. l \<noteq> ''positive'' \<and> l \<noteq> ''negative'') r)"

definition knownLabel :: "string \<Rightarrow> bool" where
  "knownLabel l = (l = ''positive'' \<or> l = ''neutral'' \<or> l = ''negative'')"

text \<open>The invariant of the aggregation loop.\<close>

definition accOk :: "health_acc \<Rightarrow> bool" where
  "accOk acc = (countsAgree (report acc) \<and> list_all (\<lambda>m. knownLabel (Sentiment m)) (Messages (report acc)))"

subsection \<open>Texts without a match, words without white space\<close>

text \<open>\<open>noMatch m s\<close>: the expression \<open>m\<close> matches at no position of \<open>s\<close>.
  \<open>tight w\<close>: no white-space rune starts in \<open>w\<close>.\<close>

fun noMatch :: "(string \<Rightarrow> nat option) \<Rightarrow> string \<Rightarrow> bool" where
  "noMatch m [] = True"
| "noMatch m (c # cs) = (m (c # cs) = None \<and> noMatch m cs)"

fun tight :: "string \<Rightarrow> bool" where
  "tight [] = True"
| "tight (c # cs) = (spaceWidth (c # cs) = 0 \<and> tight cs)"

subsection \<open>Concrete inputs\<close>

text \<open>A hand-built report with overlapping counts: 16 of 20 messages counted positive and
  11 of 20 counted negative.\<close>

definition overlapReport :: HealthReport where
  "overlapReport = \<lparr> PRCount = 2, MessageCount = 20, PositiveScore = 16, NegativeScore = 11,
      NeutralScore = 0, AverageSentiment = 1 / 2, Messages = [] \<rparr>"

definition emptyReport :: HealthReport where
  "emptyReport = \<lparr> PRCount = 3, MessageCount = 0, PositiveScore = 0, NegativeScore = 0,
      NeutralScore = 0, AverageSentiment = 0, Messages = [] \<rparr>"

text \<open>Three classifiers: one that answers every request with a positive verdict of score
  0.9, one whose every request fails, and one whose answer has its closing brace
  before its opening brace.\<close>

definition positiveGemini :: gemini where
  "positiveGemini = \<lparr> apiKey = ''key'', clientOk = True,
      generate = (\<lambda>n prompt. Response [[Text ''{}'']]),
      unmarshal = (\<lambda>s. Some (''positive'', 9 / 10)) \<rparr>"

definition failingGemini :: gemini where
  "failingGemini = \<lparr> apiKey = ''key'', clientOk = True,
      generate = (\<lambda>n prompt. GenerateFailed), unmarshal = (\<lambda>s. None) \<rparr>"

definition reversedGemini :: gemini where
  "reversedGemini = \<lparr> apiKey = ''key'', clientOk = True,
      generate = (\<lambda>n prompt. Response [[Text ''} {'']]),
      unmarshal = (\<lambda>s. None) \<rparr>"

text \<open>A discussion with a message of a bot and a message of a person.\<close>

definition aliceDiscussion :: PRDiscussion where
  "aliceDiscussion = \<lparr> PRNumber = 7, dTitle = ''Bump deps'', dAuthor = ''dependabot[bot]'',
      dState = ''open'', dMerged = False,
      dMessages =
        [\<lparr> mAuthor = ''dependabot[bot]'', Body = ''Bumps x from 1 to 2'',
            mCreatedAt = ''2024-01-01 10:00:00'', IsPRBody = True \<rparr>,
         \<lparr> mAuthor = ''alice'', Body = ''Great work, thanks'',
            mCreatedAt = ''2024-01-01 11:00:00'', IsPRBody = False \<rparr>] \<rparr>"

text \<open>The report of \<open>aliceDiscussion\<close> under the positive classifier.\<close>

definition aliceReport :: HealthReport where
  "aliceReport = \<lparr> PRCount = 1, MessageCount = 1, PositiveScore = 1, NegativeScore = 0,
      NeutralScore = 0, AverageSentiment = 9 / 10,
      Messages = [\<lparr> Content = ''Great work, thanks'', Sentiment = ''positive'', Score = 9 / 10 \<rparr>] \<rparr>"

text \<open>A GitHub with three pull requests: a merged one, a closed one that was not merged,
  an open one. Its merge-check endpoint answers "merged" for every number.\<close>

definition exampleGithub :: github where
  "exampleGithub =
     \<lparr> repos_get = (\<lambda>owner repo. Inr \<lparr> rName = Some repo, rFullName = None, rDescription = None,
          rStargazersCount = Some 1, rForksCount = None, rOpenIssuesCount = None,
          rLanguage = Some ''Go'', rCreatedAt = Some ''2009-11-10'', rUpdatedAt = None \<rparr>),
       pulls_list = (\<lambda>owner repo perPage.
          Inr [\<lparr> prNumber = Some 3, prTitle = Some ''merged one'', prState = Some ''closed'',
                  prUser = Some (Some ''alice''), prMergedAt = Some 1700000000,
                  prBody = None, prCreatedAt = None \<rparr>,
               \<lparr> prNumber = Some 2, prTitle = Some ''rejected one'', prState = Some ''closed'',
                  prUser = Some None, prMergedAt = None, prBody = None, prCreatedAt = None \<rparr>,
               \<lparr> prNumber = Some 1, prTitle = Some ''open one'', prState = Some ''open'',
                  prUser = None, prMergedAt = None, prBody = None, prCreatedAt = None \<rparr>]),
       pulls_get = (\<lambda>owner repo n. Inl (ApiError ''not found'')),
       issues_list_comments = (\<lambda>owner repo n. Inr []),
       pulls_list_comments = (\<lambda>owner repo n. Inr []),
       pulls_is_merged = (\<lambda>owner repo n. Inr True) \<rparr>"

definition quietDisplay :: "RepoInfo \<Rightarrow> PRInfo list \<Rightarrow> string option" where
  "quietDisplay info prInfos = None"

text \<open>A double-backtick code span, as Markdown allows it.\<close>

definition doubleBackticks :: string where
  "doubleBackticks = [backtick, backtick, CHR ''x'', backtick, backtick]"

section \<open>Properties\<close>

subsection \<open>The repository locator\<close>

text \<open>
  Claim C7. Parsing the repository reference \<^verbatim>\<open>https://github.com/golang/go\<close> and parsing
  the short form \<^verbatim>\<open>golang/go\<close> both succeed and return the same pair: owner
  \<^verbatim>\<open>golang\<close>, repository \<^verbatim>\<open>go\<close>.
\<close>

theorem ParseRepoURL_golang_go:
  "ParseRepoURL ''https://github.com/golang/go'' = Inr (''golang'', ''go'') \<and>
   ParseRepoURL ''golang/go'' = Inr (''golang'', ''go'')"
  by (simp add: ParseRepoURL_def trimPrefix_def)

subsection \<open>The health verdict\<close>

lemma verdictsOf_append: "verdictsOf (xs @ ys) = verdictsOf xs @ verdictsOf ys"
  by (induction xs rule: verdictsOf.induct) simp_all

lemma verdictsOf_sampleLines: "verdictsOf (sampleLines n ms) = []"
  by (induction ms arbitrary: n) (simp_all add: Let_def)

lemma verdictsOf_display:
  "MessageCount r \<noteq> 0 \<Longrightarrow> verdictsOf (displayHealthReport r) = [healthAssessment r]"
  by (simp add: displayHealthReport_def Let_def verdictsOf_append verdictsOf_sampleLines)

text \<open>
  Claim C1. The health verdict is decided by the rules (1) zero messages, (2) negative
  fraction above 0.5, (3) positive fraction above 0.7, (4) average sentiment above 0.6,
  (5) neutral fraction above 0.7, (6) otherwise, in this priority order: the switch of
  the source computes the first rule that applies, and this is the one verdict printed
  for a report with messages. In particular a report whose positive fraction exceeds
  0.7 and whose negative fraction exceeds 0.5 gets "needs attention", rule 2 being
  checked before rule 3.
\<close>

theorem verdict_ladder_priority:
  "healthAssessment r = verdictLadder r \<and>
   (MessageCount r \<noteq> 0 \<longrightarrow> verdictsOf (displayHealthReport r) = [verdictLadder r]) \<and>
   (MessageCount r \<noteq> 0 \<and> positiveFraction r > 7 / 10 \<and> negativeFraction r > 5 / 10 \<longrightarrow>
      verdictsOf (displayHealthReport r) = [NeedsAttention])"
proof -
  have eq: "healthAssessment r = verdictLadder r"
    by (simp add: healthAssessment_def verdictLadder_def negativeFraction_def
        positiveFraction_def neutralFraction_def)
  have neg: "MessageCount r \<noteq> 0 \<Longrightarrow> negativeFraction r > 5 / 10 \<Longrightarrow> verdictLadder r = NeedsAttention"
    by (simp add: verdictLadder_def)
  show ?thesis
    using eq neg verdictsOf_display [of r] by simp
qed

text \<open>The report of the specification's scenario: positive fraction 0.8, negative
  fraction 0.55.\<close>

theorem verdict_ladder_priority_witness:
  "MessageCount overlapReport \<noteq> 0 \<and> positiveFraction overlapReport = 8 / 10 \<and>
   negativeFraction overlapReport = 55 / 100 \<and>
   verdictsOf (displayHealthReport overlapReport) = [NeedsAttention]"
proof -
  have h: "MessageCount overlapReport \<noteq> 0 \<and> positiveFraction overlapReport > 7 / 10 \<and>
           negativeFraction overlapReport > 5 / 10"
    by (simp add: overlapReport_def positiveFraction_def negativeFraction_def)
  with verdict_ladder_priority [of overlapReport]
  have "verdictsOf (displayHealthReport overlapReport) = [NeedsAttention]" by blast
  then show ?thesis
    by (simp add: overlapReport_def positiveFraction_def negativeFraction_def)
qed

text \<open>
  A report without messages: \<^verbatim>\<open>displayHealthReport\<close> returns right after its first
  line, before the percentages and before the switch. No percentage is printed, and
  the first case of the switch is never reached.
\<close>

theorem display_no_messages_counterexample:
  "MessageCount emptyReport = 0 \<and>
   PositiveLine 0 \<notin> set (displayHealthReport emptyReport) \<and>
   NeutralLine 0 \<notin> set (displayHealthReport emptyReport) \<and>
   NegativeLine 0 \<notin> set (displayHealthReport emptyReport) \<and>
   VerdictLine NoMessagesToAnalyze \<notin> set (displayHealthReport emptyReport)"
  by (simp add: emptyReport_def displayHealthReport_def)

text \<open>
  Claim C2, amended. For every report whose message count is 0, the display prints the
  single notice "No messages found to analyze." and nothing else: no percentage, no
  average, no sample and no health assessment.
\<close>

theorem display_no_messages:
  "MessageCount r = 0 \<Longrightarrow> displayHealthReport r = [NoMessagesFound]"
  by (simp add: displayHealthReport_def)

theorem display_no_messages_witness:
  "MessageCount emptyReport = 0 \<and> displayHealthReport emptyReport = [NoMessagesFound]"
proof -
  have h: "MessageCount emptyReport = 0" by (simp add: emptyReport_def)
  from display_no_messages [OF h] h show ?thesis by simp
qed

subsection \<open>The classifier boundary\<close>

text \<open>
  Claim C3. For a text that is empty, or that the normalizer cleans to the empty string,
  the classification is exactly (neutral, 0.5) and the classifier is not invoked: the
  list of prompts sent is unchanged.
\<close>

theorem analyzeSentiment_empty:
  "text = [] \<or> cleanTextForAnalysis text = [] \<Longrightarrow>
   analyzeSentiment gem text sent = (Return (''neutral'', 1 / 2), sent)"
  by (auto simp add: analyzeSentiment_def analyzeWithGemini_def Let_def)

theorem analyzeSentiment_empty_witness:
  "cleanTextForAnalysis (fence @ ''x := 1'' @ fence) = [] \<and>
   analyzeSentiment positiveGemini (fence @ ''x := 1'' @ fence) [''earlier prompt''] =
     (Return (''neutral'', 1 / 2), [''earlier prompt'']) \<and>
   analyzeSentiment positiveGemini [] [] = (Return (''neutral'', 1 / 2), [])"
proof -
  have h: "cleanTextForAnalysis (fence @ ''x := 1'' @ fence) = []" by code_simp
  show ?thesis
    using h analyzeSentiment_empty [of "fence @ ''x := 1'' @ fence" positiveGemini "[''earlier prompt'']"]
      analyzeSentiment_empty [of "[]" positiveGemini "[]"]
    by simp
qed

lemma cleanTextForAnalysis_Nil: "cleanTextForAnalysis [] = []"
  by code_simp

text \<open>An error that the classifier call returns is replaced by (neutral, 0.5).\<close>

lemma analyzeSentiment_fallback:
  assumes "analyzeWithGemini gem text sent = (Return (Inl err), sent1)"
  shows "analyzeSentiment gem text sent = (Return (''neutral'', 1 / 2), sent1)"
proof (cases "text = []")
  case True
  with assms show ?thesis by (simp add: analyzeWithGemini_def cleanTextForAnalysis_Nil)
next
  case False
  with assms show ?thesis by (simp add: analyzeSentiment_def)
qed

text \<open>
  Claim C4. A classifier call that fails is to be recorded as (neutral, 0.5), and the
  run is to go on. The source misses one malformed answer: when the last closing brace
  of the answer stands more than one byte before its first opening brace, the slice
  \<^verbatim>\<open>responseText[jsonStart : jsonEnd+1]\<close> is out of range. The call panics, and so does
  the aggregation of the whole batch: no report is produced.
\<close>

theorem reversed_braces_panic:
  "analyzeWithGemini reversedGemini ''Great work, thanks'' [] =
     (Panic, [promptFor ''Great work, thanks'']) \<and>
   analyzePRHealth reversedGemini [aliceDiscussion] [] = Panic"
  by code_simp

subsection \<open>The aggregator\<close>

lemma analyzeWithGemini_label:
  "analyzeWithGemini gem text sent = (Return (Inr (l, s)), sent1) \<Longrightarrow> knownLabel l"
  unfolding analyzeWithGemini_def Let_def knownLabel_def
  by (auto split: if_splits option.splits gen_result.splits list.splits outcome.splits prod.splits)

lemma analyzeSentiment_label:
  assumes a: "analyzeSentiment gem text sent = (Return (l, s), sent1)"
  shows "knownLabel l"
proof (cases "text = []")
  case True
  with a show ?thesis by (auto simp: analyzeSentiment_def knownLabel_def)
next
  case False
  obtain res sent2 where w: "analyzeWithGemini gem text sent = (res, sent2)" by force
  show ?thesis
  proof (cases res)
    case Panic
    with a w False show ?thesis by (simp add: analyzeSentiment_def)
  next
    case (Return x)
    show ?thesis
    proof (cases x)
      case (Inl err)
      with a w False Return show ?thesis by (auto simp: analyzeSentiment_def knownLabel_def)
    next
      case (Inr p)
      with a w False Return have "x = Inr (l, s)" by (cases p) (auto simp: analyzeSentiment_def)
      with w Return analyzeWithGemini_label show ?thesis by blast
    qed
  qed
qed

lemma recordMessage_ok:
  assumes "accOk acc" "knownLabel l"
  shows "accOk (recordMessage acc msg l s)"
    and "map Content (Messages (report (recordMessage acc msg l s))) =
         map Content (Messages (report acc)) @ [Body msg]"
    and "PRCount (report (recordMessage acc msg l s)) = PRCount (report acc)"
  using assms
  by (auto simp: accOk_def countsAgree_def labelCount_def recordMessage_def Let_def knownLabel_def)

lemma analyzeMessages_ok:
  "analyzeMessages gem msgs acc sent = Return (acc1, sent1) \<Longrightarrow> accOk acc \<Longrightarrow>
   accOk acc1 \<and>
   map Content (Messages (report acc1)) =
     map Content (Messages (report acc)) @ map Body (filter analyzed msgs) \<and>
   PRCount (report acc1) = PRCount (report acc)"
proof (induction msgs arbitrary: acc sent)
  case Nil
  then show ?case by simp
next
  case (Cons msg msgs)
  show ?case
  proof (cases "analyzed msg")
    case False
    with Cons.prems have "analyzeMessages gem msgs acc sent = Return (acc1, sent1)"
      by (auto simp: analyzed_def)
    from Cons.IH [OF this Cons.prems(2)] False show ?thesis by simp
  next
    case True
    obtain res sent2 where w: "analyzeSentiment gem (Body msg) sent = (res, sent2)" by force
    show ?thesis
    proof (cases res)
      case Panic
      with Cons.prems True w show ?thesis by (simp add: analyzed_def)
    next
      case (Return p)
      obtain l s where p: "p = (l, s)" by force
      from w Return p have lab: "knownLabel l" using analyzeSentiment_label by blast
      from Cons.prems True w Return p
      have rest: "analyzeMessages gem msgs (recordMessage acc msg l s) sent2 = Return (acc1, sent1)"
        by (simp add: analyzed_def)
      from Cons.IH [OF rest recordMessage_ok(1) [OF Cons.prems(2) lab]]
        recordMessage_ok(2,3) [OF Cons.prems(2) lab, of msg s] True
      show ?thesis by simp
    qed
  qed
qed

lemma analyzeDiscussions_ok:
  "analyzeDiscussions gem ds acc sent = Return (acc1, sent1) \<Longrightarrow> accOk acc \<Longrightarrow>
   accOk acc1 \<and>
   map Content (Messages (report acc1)) =
     map Content (Messages (report acc)) @ map Body (filter analyzed (concat (map dMessages ds))) \<and>
   PRCount (report acc1) = PRCount (report acc)"
proof (induction ds arbitrary: acc sent)
  case Nil
  then show ?case by simp
next
  case (Cons d ds)
  from Cons.prems(1) obtain acc2 sent2 where
    step: "analyzeMessages gem (dMessages d) acc sent = Return (acc2, sent2)" and
    rest: "analyzeDiscussions gem ds acc2 sent2 = Return (acc1, sent1)"
    by (auto split: outcome.splits)
  from analyzeMessages_ok [OF step Cons.prems(2)] Cons.IH [OF rest] show ?case by simp
qed

lemma countsAgree_sum:
  "countsAgree r \<Longrightarrow>
   PositiveScore r + NegativeScore r + NeutralScore r = of_nat (length (Messages r))"
proof -
  have "length (filter (\<lambda>m. Sentiment m = ''positive'') ms) +
        length (filter (\<lambda>m. Sentiment m = ''negative'') ms) +
        length (filter (\<lambda>m. Sentiment m \<noteq> ''positive'' \<and> Sentiment m \<noteq> ''negative'') ms) = length ms"
    for ms :: "MessageAnalysis list"
    by (induction ms) auto
  from this [of "Messages r", symmetric] show "countsAgree r \<Longrightarrow> ?thesis"
    by (simp add: countsAgree_def labelCount_def)
qed

lemma analyzeSentiment_returns:
  assumes "fst (analyzeWithGemini gem body sent) \<noteq> Panic"
  shows "fst (analyzeSentiment gem body sent) \<noteq> Panic"
proof (cases "body = []")
  case True
  then show ?thesis by (simp add: analyzeSentiment_def)
next
  case False
  obtain res sent2 where w: "analyzeWithGemini gem body sent = (res, sent2)" by force
  with assms obtain x where "res = Return x" by (cases res) auto
  with w False show ?thesis
    by (cases x) (auto simp: analyzeSentiment_def)
qed

lemma analyzeMessages_returns:
  assumes "\<And>msg sent. msg \<in> set msgs \<Longrightarrow> fst (analyzeWithGemini gem (Body msg) sent) \<noteq> Panic"
  shows "analyzeMessages gem msgs acc sent \<noteq> Panic"
  using assms
proof (induction msgs arbitrary: acc sent)
  case Nil
  then show ?case by simp
next
  case (Cons msg msgs)
  have rest: "analyzeMessages gem msgs acc' sent' \<noteq> Panic" for acc' sent'
    using Cons.prems by (intro Cons.IH) simp
  obtain res sent1 where w: "analyzeSentiment gem (Body msg) sent = (res, sent1)" by force
  with Cons.prems [of msg sent] have "res \<noteq> Panic"
    using analyzeSentiment_returns [of gem "Body msg" sent] by simp
  then obtain l s where "res = Return (l, s)" by (cases res) auto
  with w rest show ?case by simp
qed

lemma analyzeDiscussions_returns:
  assumes "\<And>d msg sent. d \<in> set ds \<Longrightarrow> msg \<in> set (dMessages d) \<Longrightarrow>
             fst (analyzeWithGemini gem (Body msg) sent) \<noteq> Panic"
  shows "analyzeDiscussions gem ds acc sent \<noteq> Panic"
  using assms
proof (induction ds arbitrary: acc sent)
  case Nil
  then show ?case by simp
next
  case (Cons d ds)
  have rest: "analyzeDiscussions gem ds acc' sent' \<noteq> Panic" for acc' sent'
  proof (rule Cons.IH)
    fix d' msg sent''
    assume "d' \<in> set ds" "msg \<in> set (dMessages d')"
    with Cons.prems [of d' msg sent''] show "fst (analyzeWithGemini gem (Body msg) sent'') \<noteq> Panic"
      by simp
  qed
  have "analyzeMessages gem (dMessages d) acc sent \<noteq> Panic"
  proof (rule analyzeMessages_returns)
    fix msg sent'
    assume "msg \<in> set (dMessages d)"
    with Cons.prems [of d msg sent'] show "fst (analyzeWithGemini gem (Body msg) sent') \<noteq> Panic"
      by simp
  qed
  then obtain acc1 sent1 where "analyzeMessages gem (dMessages d) acc sent = Return (acc1, sent1)"
    by (cases "analyzeMessages gem (dMessages d) acc sent") auto
  with rest [of acc1 sent1] show ?case by simp
qed

text \<open>The aggregation produces a report unless a classifier call panics.\<close>

lemma analyzePRHealth_returns:
  assumes "\<And>d msg sent. d \<in> set ds \<Longrightarrow> msg \<in> set (dMessages d) \<Longrightarrow>
             fst (analyzeWithGemini gem (Body msg) sent) \<noteq> Panic"
  shows "analyzePRHealth gem ds sent \<noteq> Panic"
proof -
  let ?a0 = "\<lparr> report = \<lparr> PRCount = int (length ds), MessageCount = 0, PositiveScore = 0,
                NegativeScore = 0, NeutralScore = 0, AverageSentiment = 0, Messages = [] \<rparr>,
                totalScore = 0, messageCount = 0 \<rparr>"
  have "analyzeDiscussions gem ds ?a0 sent \<noteq> Panic"
    by (rule analyzeDiscussions_returns) (rule assms)
  then obtain acc1 sent1 where "analyzeDiscussions gem ds ?a0 sent = Return (acc1, sent1)"
    by (cases "analyzeDiscussions gem ds ?a0 sent") auto
  then show ?thesis by (simp add: analyzePRHealth_def)
qed

text \<open>
  Claim C10. Every report the aggregator produces satisfies: the three counters add up to
  the message count, which is the length of the message list and the number of
  analyzed messages; the entries of the list are, in order, the messages with a body
  that is not empty and an author that is not a bot; each counter is the number of
  entries with its label, and every entry has one of the three labels.
\<close>

theorem analyzePRHealth_counts:
  assumes "analyzePRHealth gem ds sent = Return (r, sent1)"
  shows "PositiveScore r + NegativeScore r + NeutralScore r = of_int (MessageCount r) \<and>
         MessageCount r = int (length (Messages r)) \<and>
         MessageCount r = int (length (filter analyzed (concat (map dMessages ds)))) \<and>
         map Content (Messages r) = map Body (filter analyzed (concat (map dMessages ds))) \<and>
         countsAgree r \<and> list_all (\<lambda>m. knownLabel (Sentiment m)) (Messages r)"
proof -
  let ?r0 = "\<lparr> PRCount = int (length ds), MessageCount = 0, PositiveScore = 0,
                NegativeScore = 0, NeutralScore = 0, AverageSentiment = 0, Messages = [] \<rparr>"
  let ?a0 = "\<lparr> report = ?r0, totalScore = 0, messageCount = 0 \<rparr>"
  from assms obtain acc where
    run: "analyzeDiscussions gem ds ?a0 sent = Return (acc, sent1)" and r: "r = finishReport acc"
    by (auto simp: analyzePRHealth_def Let_def split: outcome.splits)
  have ok0: "accOk ?a0" by (simp add: accOk_def countsAgree_def labelCount_def)
  from analyzeDiscussions_ok [OF run ok0]
  have ok: "accOk acc" and
    content: "map Content (Messages (report acc)) = map Body (filter analyzed (concat (map dMessages ds)))"
    by simp_all
  have fin: "Messages r = Messages (report acc)" "PositiveScore r = PositiveScore (report acc)"
    "NegativeScore r = NegativeScore (report acc)" "NeutralScore r = NeutralScore (report acc)"
    "MessageCount r = int (length (Messages (report acc)))"
    by (simp_all add: r finishReport_def Let_def)
  from ok have agree: "countsAgree r" and labels: "list_all (\<lambda>m. knownLabel (Sentiment m)) (Messages r)"
    by (simp_all add: accOk_def countsAgree_def labelCount_def fin)
  from content have len: "length (Messages (report acc)) =
      length (filter analyzed (concat (map dMessages ds)))"
    by (metis length_map)
  from countsAgree_sum [OF agree] fin content len agree labels show ?thesis by simp
qed

theorem analyzePRHealth_counts_witness:
  "analyzePRHealth positiveGemini [aliceDiscussion] [] =
     Return (aliceReport, [promptFor ''Great work, thanks'']) \<and>
   PositiveScore aliceReport + NegativeScore aliceReport + NeutralScore aliceReport =
     of_int (MessageCount aliceReport) \<and>
   MessageCount aliceReport = int (length (Messages aliceReport)) \<and>
   MessageCount aliceReport = int (length (filter analyzed (concat (map dMessages [aliceDiscussion])))) \<and>
   map Content (Messages aliceReport) = map Body (filter analyzed (concat (map dMessages [aliceDiscussion]))) \<and>
   countsAgree aliceReport \<and> list_all (\<lambda>m. knownLabel (Sentiment m)) (Messages aliceReport)"
proof -
  have h: "analyzePRHealth positiveGemini [aliceDiscussion] [] =
     Return (aliceReport, [promptFor ''Great work, thanks''])"
    by code_simp
  from h analyzePRHealth_counts [OF h] show ?thesis by (rule conjI)
qed

text \<open>A classifier whose every request fails: the message is recorded as neutral with
  score 0.5, and the report is produced.\<close>

lemma failing_classifier_neutral:
  "analyzePRHealth failingGemini [aliceDiscussion] [] =
     Return (\<lparr> PRCount = 1, MessageCount = 1, PositiveScore = 0, NegativeScore = 0,
               NeutralScore = 1, AverageSentiment = 1 / 2,
               Messages = [\<lparr> Content = ''Great work, thanks'', Sentiment = ''neutral'',
                              Score = 1 / 2 \<rparr>] \<rparr>,
             [promptFor ''Great work, thanks''])"
  by code_simp

subsection \<open>The pull-request list\<close>

lemma collectPRs_take:
  "collectPRs limit prs acc = acc @ map toPRInfo (take (nat limit - length acc) prs)"
proof (induction prs arbitrary: acc)
  case Nil
  then show ?case by simp
next
  case (Cons pr prs)
  show ?case
  proof (cases "int (length acc) \<ge> limit")
    case True
    then show ?thesis by simp
  next
    case False
    then have "nat limit - length acc = Suc (nat limit - Suc (length acc))" by linarith
    with False Cons.IH [of "acc @ [toPRInfo pr]"] show ?thesis by simp
  qed
qed

lemma toPRInfo_merged:
  "State (toPRInfo pr) = GetState pr \<and>
   (Merged (toPRInfo pr) \<longleftrightarrow> State (toPRInfo pr) = ''closed'' \<and> \<not> IsZero (GetMergedAt pr))"
  by (simp add: toPRInfo_def Let_def)

text \<open>
  Claim C9. For every pull request that \<^verbatim>\<open>FetchPullRequests\<close> returns (the first
  \<open>limit\<close> of the list the API answered), the merged flag is true if and only if
  the state is \<^verbatim>\<open>closed\<close> and the merge time is not the zero time. The only request
  sent is the list request: the merge-check endpoint of \<^verbatim>\<open>IsMerged\<close> is not called.
\<close>

theorem FetchPullRequests_merged_flag:
  assumes "FetchPullRequests gh owner repo limit calls = (Inr infos, calls1)"
  shows "\<exists>prs. pulls_list gh owner repo limit = Inr prs \<and>
           list_all2 (\<lambda>info pr. State info = GetState pr \<and>
                        (Merged info \<longleftrightarrow> State info = ''closed'' \<and> \<not> IsZero (GetMergedAt pr)))
             infos (take (nat limit) prs) \<and>
           calls1 = calls @ [PullsList owner repo limit]"
proof (cases "pulls_list gh owner repo limit")
  case (Inl err)
  with assms show ?thesis by (simp add: FetchPullRequests_def)
next
  case (Inr prs)
  with assms have infos: "infos = map toPRInfo (take (nat limit) prs)"
    and calls1: "calls1 = calls @ [PullsList owner repo limit]"
    by (simp_all add: FetchPullRequests_def collectPRs_take)
  have "list_all2 (\<lambda>info pr. State info = GetState pr \<and>
                        (Merged info \<longleftrightarrow> State info = ''closed'' \<and> \<not> IsZero (GetMergedAt pr)))
          (map toPRInfo (take (nat limit) prs)) (take (nat limit) prs)"
    using toPRInfo_merged by (simp add: list_all2_map1 list_all2_same)
  with Inr infos calls1 show ?thesis by simp
qed

theorem FetchPullRequests_merged_flag_witness:
  "FetchPullRequests exampleGithub ''golang'' ''go'' 2 [] =
     (Inr [\<lparr> Number = 3, Title = ''merged one'', State = ''closed'', Author = ''alice'', Merged = True \<rparr>,
           \<lparr> Number = 2, Title = ''rejected one'', State = ''closed'', Author = [], Merged = False \<rparr>],
      [PullsList ''golang'' ''go'' 2]) \<and>
   (\<exists>prs. pulls_list exampleGithub ''golang'' ''go'' 2 = Inr prs \<and>
           list_all2 (\<lambda>info pr. State info = GetState pr \<and>
                        (Merged info \<longleftrightarrow> State info = ''closed'' \<and> \<not> IsZero (GetMergedAt pr)))
             [\<lparr> Number = 3, Title = ''merged one'', State = ''closed'', Author = ''alice'', Merged = True \<rparr>,
              \<lparr> Number = 2, Title = ''rejected one'', State = ''closed'', Author = [], Merged = False \<rparr>]
             (take (nat 2) prs) \<and>
           [PullsList ''golang'' ''go'' 2] = [] @ [PullsList ''golang'' ''go'' 2])"
proof -
  have h: "FetchPullRequests exampleGithub ''golang'' ''go'' 2 [] =
     (Inr [\<lparr> Number = 3, Title = ''merged one'', State = ''closed'', Author = ''alice'', Merged = True \<rparr>,
           \<lparr> Number = 2, Title = ''rejected one'', State = ''closed'', Author = [], Merged = False \<rparr>],
      [PullsList ''golang'' ''go'' 2])"
    by code_simp
  from h FetchPullRequests_merged_flag [OF h] show ?thesis by (rule conjI)
qed

subsection \<open>The limits of the commands\<close>

text \<open>
  Two counts below 1 on the info command: 0 is kept (no pull request is listed, the
  default of an absent flag), \<open>-1\<close> becomes 5. Out-of-range counts do not fall back
  to one default.
\<close>

theorem pr_limit_counterexample:
  "determinePRLimit True 0 = 0 \<and> determinePRLimit True (-1) = 5 \<and>
   runAnalyze exampleGithub quietDisplay ''golang/go'' True 0 =
     (Finished, [ReposGet ''golang'' ''go'']) \<and>
   runAnalyze exampleGithub quietDisplay ''golang/go'' True (-1) =
     (Finished, [ReposGet ''golang'' ''go'', PullsList ''golang'' ''go'' 5])"
  by code_simp

lemma runAnalyze_over_100:
  "prs > 100 \<Longrightarrow>
   runAnalyze gh display repoURL True prs =
     (Fatal (if isl (ParseRepoURL repoURL) then ErrorParsingRepositoryURL
             else PRLimitMustBe100OrLess), [])"
  by (cases "ParseRepoURL repoURL")
     (auto simp: runAnalyze_def determinePRLimit_def Let_def split: prod.splits)

lemma FetchRepoInfo_calls:
  "snd (FetchRepoInfo gh owner repo calls) = calls @ [ReposGet owner repo]"
  by (simp add: FetchRepoInfo_def split: sum.splits)

lemma runAnalyze_below_1:
  assumes "low < 1" "low \<noteq> -1"
  shows "determinePRLimit True low = low"
    and "fst (runAnalyze gh display repoURL True low) \<noteq> Fatal PRLimitMustBe100OrLess"
    and "PullsList owner repo n \<notin> set (snd (runAnalyze gh display repoURL True low))"
proof -
  show lim: "determinePRLimit True low = low" using assms by (simp add: determinePRLimit_def)
  show "fst (runAnalyze gh display repoURL True low) \<noteq> Fatal PRLimitMustBe100OrLess"
    using assms lim
    by (auto simp: runAnalyze_def Let_def split: sum.splits prod.splits option.splits)
  show "PullsList owner repo n \<notin> set (snd (runAnalyze gh display repoURL True low))"
  proof (cases "ParseRepoURL repoURL")
    case (Inl err)
    then show ?thesis by (simp add: runAnalyze_def)
  next
    case (Inr p)
    obtain ow re where p: "p = (ow, re)" by force
    obtain res calls1 where f: "FetchRepoInfo gh ow re [] = (res, calls1)" by force
    with FetchRepoInfo_calls [of gh ow re "[]"] have c: "calls1 = [ReposGet ow re]" by simp
    from Inr p f c assms lim show ?thesis
      by (auto simp: runAnalyze_def Let_def split: sum.splits option.splits)
  qed
qed

lemma runHealthAnalysis_default:
  "healthLimit < 1 \<or> healthLimit > 20 \<Longrightarrow>
   runHealthAnalysis gem gh repoURL healthLimit = runHealthAnalysis gem gh repoURL 5"
  by (simp add: runHealthAnalysis_def)

text \<open>
  Claim C8, amended. On the info command a count above 100 (150, say) is a fatal input
  error, reported before any request is sent. A count of \<open>-1\<close> is replaced by 5.
  Every other count below 1 is kept as it is: the run does not fail on the limit and
  lists no pull request. On the health command every limit outside 1 to 20, also one
  above 20, is replaced by the default 5 without an error.
\<close>

theorem pr_limit_handling:
  "(prs > 100 \<longrightarrow>
      runAnalyze gh display repoURL True prs =
        (Fatal (if isl (ParseRepoURL repoURL) then ErrorParsingRepositoryURL
                else PRLimitMustBe100OrLess), [])) \<and>
   determinePRLimit True (-1) = 5 \<and>
   (low < 1 \<and> low \<noteq> -1 \<longrightarrow>
      determinePRLimit True low = low \<and>
      fst (runAnalyze gh display repoURL True low) \<noteq> Fatal PRLimitMustBe100OrLess \<and>
      (\<forall>owner repo n. PullsList owner repo n \<notin> set (snd (runAnalyze gh display repoURL True low)))) \<and>
   (healthLimit < 1 \<or> healthLimit > 20 \<longrightarrow>
      runHealthAnalysis gem gh repoURL healthLimit = runHealthAnalysis gem gh repoURL 5)"
proof (intro conjI impI allI)
  show "determinePRLimit True (- 1) = 5" by (simp add: determinePRLimit_def)
qed (auto simp: runAnalyze_over_100 runHealthAnalysis_default
      dest: runAnalyze_below_1(1) runAnalyze_below_1(2) runAnalyze_below_1(3))

theorem pr_limit_handling_witness:
  "runAnalyze exampleGithub quietDisplay ''golang/go'' True 150 = (Fatal PRLimitMustBe100OrLess, []) \<and>
   determinePRLimit True (-2) = -2 \<and>
   fst (runAnalyze exampleGithub quietDisplay ''golang/go'' True (-2)) \<noteq> Fatal PRLimitMustBe100OrLess \<and>
   (\<forall>owner repo n. PullsList owner repo n \<notin>
        set (snd (runAnalyze exampleGithub quietDisplay ''golang/go'' True (-2)))) \<and>
   runHealthAnalysis positiveGemini exampleGithub ''golang/go'' 150 =
     runHealthAnalysis positiveGemini exampleGithub ''golang/go'' 5"
proof -
  have p: "\<not> isl (ParseRepoURL ''golang/go'')" by code_simp
  show ?thesis
    using p pr_limit_handling [of 150 exampleGithub quietDisplay "''golang/go''" "-2" 150 positiveGemini]
    by simp
qed

subsection \<open>The text normalizer: fenced code blocks\<close>

lemma hasPrefix_take: "hasPrefix s p = (take (length p) s = p)"
  by (induction s p rule: hasPrefix.induct) auto

lemma contains_drop: "i \<le> length s \<Longrightarrow> hasPrefix (drop i s) sub \<Longrightarrow> contains s sub"
proof (induction s arbitrary: i)
  case Nil
  then show ?case by (cases sub) simp_all
next
  case (Cons c cs)
  then show ?case by (cases i) auto
qed

lemma drop_length_append: "n = length xs \<Longrightarrow> drop n (xs @ ys) = ys"
  by simp

lemma replaceAll_skip:
  "(\<And>i. i < length a \<Longrightarrow> m (drop i a @ b) = None) \<Longrightarrow>
   replaceAll m r (a @ b) = a @ replaceAll m r b"
proof (induction a)
  case Nil
  then show ?case by simp
next
  case (Cons c a)
  from Cons.prems [of 0] have h: "m (c # a @ b) = None" by simp
  have "\<And>i. i < length a \<Longrightarrow> m (drop i a @ b) = None"
    using Cons.prems [of "Suc _"] by simp
  from Cons.IH [OF this] h show ?case by simp
qed

text \<open>A fence that starts inside u, in front of a fence or a space, starts inside u
  followed by two backticks.\<close>

lemma fence_in_front:
  assumes "u \<noteq> []" "hasPrefix (u @ v) fence" "hasPrefix v fence \<or> hasPrefix v '' ''"
  shows "hasPrefix (u @ [backtick, backtick]) fence"
proof -
  obtain a u1 where u: "u = a # u1" using assms(1) by (cases u) auto
  show ?thesis
  proof (cases u1)
    case Nil
    with u assms(2,3) show ?thesis
      by (cases v; cases "tl v") (auto simp: fence_def)
  next
    case (Cons b u2)
    show ?thesis
    proof (cases u2)
      case Nil
      with u Cons assms(2,3) show ?thesis by (cases v) (auto simp: fence_def)
    next
      case (Cons c u3)
      with u \<open>u1 = b # u2\<close> assms(2) show ?thesis by (auto simp: fence_def)
    qed
  qed
qed

lemma no_fence_before:
  assumes "\<not> contains (a @ [backtick, backtick]) fence" "i < length a"
    "hasPrefix v fence \<or> hasPrefix v '' ''"
  shows "fencedBlock (drop i a @ v) = None"
proof -
  have "\<not> hasPrefix (drop i a @ v) fence"
  proof
    assume "hasPrefix (drop i a @ v) fence"
    with assms(2,3) have "hasPrefix (drop i a @ [backtick, backtick]) fence"
      using fence_in_front [of "drop i a" v] by simp
    with assms(2) have "contains (a @ [backtick, backtick]) fence"
      using contains_drop [of i "a @ [backtick, backtick]" fence] by simp
    with assms(1) show False by simp
  qed
  then show ?thesis by (simp add: fencedBlock_def)
qed

lemma indexFence_closing:
  "\<not> contains (content @ [backtick, backtick]) fence \<Longrightarrow>
   indexFence (content @ fence @ post) = Some (length content)"
proof (induction content)
  case Nil
  then show ?case by (simp add: fence_def)
next
  case (Cons c cs)
  from Cons.prems have rest: "\<not> contains (cs @ [backtick, backtick]) fence" by simp
  have "\<not> hasPrefix ((c # cs) @ fence @ post) fence"
  proof
    assume "hasPrefix ((c # cs) @ fence @ post) fence"
    then have "hasPrefix ((c # cs) @ [backtick, backtick]) fence"
      using fence_in_front [of "c # cs" "fence @ post"] by (simp add: fence_def)
    with Cons.prems show False by simp
  qed
  with Cons.IH [OF rest] show ?case by simp
qed

lemma removeFenced_block:
  assumes "\<not> contains (pre @ [backtick, backtick]) fence"
    and "\<not> contains (content @ [backtick, backtick]) fence"
  shows "replaceAll fencedBlock '' '' (pre @ fence @ content @ fence @ post) =
         pre @ '' '' @ replaceAll fencedBlock '' '' post"
proof -
  have m: "fencedBlock (fence @ content @ fence @ post) = Some (3 + length content + 3)"
    using indexFence_closing [OF assms(2), of post] by (simp add: fencedBlock_def fence_def)
  define rest where "rest = backtick # backtick # content @ fence @ post"
  have e: "fence @ content @ fence @ post = backtick # rest"
    by (simp add: rest_def fence_def)
  have d: "drop (3 + length content + 3 - 1) rest = post"
  proof -
    have "drop (3 + length content + 3 - 1) ((backtick # backtick # content @ fence) @ post) = post"
      by (rule drop_length_append) (simp add: fence_def)
    then show ?thesis by (simp add: rest_def)
  qed
  from m e have m': "fencedBlock (backtick # rest) = Some (3 + length content + 3)" by simp
  have "replaceAll fencedBlock '' '' (backtick # rest) = '' '' @ replaceAll fencedBlock '' '' post"
    by (simp only: replaceAll.simps m' option.simps d)
  with e have "replaceAll fencedBlock '' '' (fence @ content @ fence @ post) =
        '' '' @ replaceAll fencedBlock '' '' post" by simp
  moreover have "replaceAll fencedBlock '' '' (pre @ (fence @ content @ fence @ post)) =
        pre @ replaceAll fencedBlock '' '' (fence @ content @ fence @ post)"
    by (rule replaceAll_skip) (rule no_fence_before [OF assms(1)], simp_all add: fence_def)
  ultimately show ?thesis by simp
qed

lemma removeFenced_space:
  assumes "\<not> contains (pre @ [backtick, backtick]) fence"
  shows "replaceAll fencedBlock '' '' (pre @ '' '' @ post) =
         pre @ '' '' @ replaceAll fencedBlock '' '' post"
proof -
  have "replaceAll fencedBlock '' '' (pre @ ('' '' @ post)) =
        pre @ replaceAll fencedBlock '' '' ('' '' @ post)"
    by (rule replaceAll_skip) (rule no_fence_before [OF assms], simp_all)
  then show ?thesis by (simp add: fencedBlock_def fence_def)
qed

text \<open>
  Two inputs whose output contains text that stands between two fences: in the first
  the fenced text also stands outside the block; in the second the fences pair up
  from the left, so the text between the second and the third fence is kept.
\<close>

theorem fenced_content_counterexample:
  "contains (cleanTextForAnalysis (''x '' @ fence @ ''x'' @ fence)) ''x'' \<and>
   contains (cleanTextForAnalysis (fence @ ''a'' @ fence @ ''keep'' @ fence @ ''b'' @ fence)) ''keep''"
  by code_simp

text \<open>
  Claim C5, amended. Take an input \<open>pre @ fence @ content @ fence @ post\<close> in which
  the opening fence is the first triple backtick of the input and the closing fence is
  the first triple backtick behind it. The fenced content has no influence on the
  output: the normalizer returns what it returns for \<open>pre\<close>, a space and \<open>post\<close>.
\<close>

theorem fenced_block_removed:
  assumes "\<not> contains (pre @ [backtick, backtick]) fence"
    and "\<not> contains (content @ [backtick, backtick]) fence"
  shows "cleanTextForAnalysis (pre @ fence @ content @ fence @ post) =
         cleanTextForAnalysis (pre @ '' '' @ post)"
  unfolding cleanTextForAnalysis_def
  by (simp only: removeFenced_block [OF assms] removeFenced_space [OF assms(1)])

theorem fenced_block_removed_witness:
  "\<not> contains (''see '' @ [backtick, backtick]) fence \<and>
   \<not> contains (''x := 1'' @ [backtick, backtick]) fence \<and>
   cleanTextForAnalysis (''see '' @ fence @ ''x := 1'' @ fence @ '' here'') =
     cleanTextForAnalysis (''see '' @ '' '' @ '' here'') \<and>
   cleanTextForAnalysis (''see '' @ '' '' @ '' here'') = ''see here''"
proof -
  have h1: "\<not> contains (''see '' @ [backtick, backtick]) fence" by code_simp
  have h2: "\<not> contains (''x := 1'' @ [backtick, backtick]) fence" by code_simp
  have h3: "cleanTextForAnalysis (''see '' @ '' '' @ '' here'') = ''see here''" by code_simp
  from h1 h2 h3 fenced_block_removed [OF h1 h2, of "'' here''"] show ?thesis by blast
qed

subsection \<open>The text normalizer: white space and fields\<close>

lemma spaceWidth_append:
  "spaceWidth r > 0 \<Longrightarrow> spaceWidth (r @ x) = spaceWidth r"
  by (induction r rule: spaceWidth.induct; cases x; cases "tl x")
     (auto split: if_splits)

lemma spaceWidth_before_space:
  "r \<noteq> [] \<Longrightarrow> spaceWidth (r @ CHR '' '' # t) = spaceWidth r"
  by (induction r rule: spaceWidth.induct; cases t)
     (auto simp: spaceTail2_def)

lemma tight_append: "tight (a @ b) \<Longrightarrow> tight b"
  by (induction a) auto

lemma tight_drop: "tight w \<Longrightarrow> tight (drop i w)"
  using tight_append [of "take i w" "drop i w"] by simp

lemma fieldsFrom_word:
  "tight w \<Longrightarrow> fieldsFrom cur (w @ CHR '' '' # t) = fieldsFrom (cur @ w) (CHR '' '' # t)"
proof (induction w arbitrary: cur)
  case Nil
  then show ?case by simp
next
  case (Cons c w)
  from Cons.prems have "spaceWidth ((c # w) @ CHR '' '' # t) = 0"
    using spaceWidth_before_space [of "c # w" t] by simp
  with Cons.IH [of "cur @ [c]"] Cons.prems show ?case by simp
qed

lemma fieldsFrom_last_word:
  "tight w \<Longrightarrow> fieldsFrom cur w = (if cur @ w = [] then [] else [cur @ w])"
proof (induction w arbitrary: cur)
  case Nil
  then show ?case by simp
next
  case (Cons c w)
  with Cons.IH [of "cur @ [c]"] show ?case by simp
qed

lemma fieldsFrom_space:
  "fieldsFrom cur (CHR '' '' # t) = (if cur = [] then [] else [cur]) @ fieldsFrom [] t"
  by (cases t; cases "tl t") (auto simp: asciiSpace_def)

lemma Fields_joinWith:
  "(\<And>w. w \<in> set ws \<Longrightarrow> w \<noteq> [] \<and> tight w) \<Longrightarrow> Fields (joinWith '' '' ws) = ws"
proof (induction ws rule: induct_list012)
  case 1
  then show ?case by (simp add: Fields_def)
next
  case (2 w)
  then show ?case by (simp add: Fields_def fieldsFrom_last_word)
next
  case (3 w v ws)
  from "3.prems" have w: "w \<noteq> []" "tight w" by simp_all
  have "Fields (joinWith '' '' (v # ws)) = v # ws"
    using "3.prems" by (intro "3.IH") simp
  with w show ?case
    by (simp add: Fields_def fieldsFrom_word fieldsFrom_space del: fieldsFrom.simps)
qed

text \<open>The fields of a text are tight, not empty, and stand in the text.\<close>

lemma tight_invariant:
  "(\<And>i. i < length cur \<Longrightarrow> spaceWidth (drop i cur @ s) = 0) \<Longrightarrow> tight cur"
proof (induction cur)
  case Nil
  then show ?case by simp
next
  case (Cons c cur)
  have "spaceWidth (c # cur) = 0"
  proof (rule ccontr)
    assume n: "spaceWidth (c # cur) \<noteq> 0"
    then have "spaceWidth ((c # cur) @ s) = spaceWidth (c # cur)"
      by (intro spaceWidth_append) simp
    with Cons.prems [of 0] n show False by simp
  qed
  moreover have "tight cur"
    using Cons.prems [of "Suc _"] by (intro Cons.IH) simp
  ultimately show ?case by simp
qed

lemma fieldsFrom_tight:
  "(\<And>i. i < length cur \<Longrightarrow> spaceWidth (drop i cur @ s) = 0) \<Longrightarrow>
   w \<in> set (fieldsFrom cur s) \<Longrightarrow> w \<noteq> [] \<and> tight w \<and> (\<exists>a b. cur @ s = a @ w @ b)"
proof (induction cur s rule: fieldsFrom.induct)
  case (1 cur)
  from "1.prems"(2) have w: "w = cur" "cur \<noteq> []" by (auto split: if_splits)
  have "cur @ [] = [] @ cur @ []" by simp
  with w tight_invariant [of cur "[]"] "1.prems"(1) show ?case by blast
next
  case (2 cur c cs)
  show ?case
  proof (cases "spaceWidth (c # cs)")
    case 0
    have inv: "spaceWidth (drop i (cur @ [c]) @ cs) = 0" if "i < length (cur @ [c])" for i
    proof (cases "i < length cur")
      case True
      with "2.prems"(1) [of i] show ?thesis by simp
    next
      case False
      with that have "i = length cur" by simp
      with 0 show ?thesis by simp
    qed
    from "2.prems"(2) 0 have "w \<in> set (fieldsFrom (cur @ [c]) cs)" by simp
    from "2.IH"(1) [OF 0 inv this] show ?thesis by simp
  next
    case (Suc k)
    from "2.prems"(2) Suc consider "w = cur" "cur \<noteq> []" | "w \<in> set (fieldsFrom [] (drop k cs))"
      by (auto split: if_splits)
    then show ?thesis
    proof cases
      case 1
      have "cur @ c # cs = [] @ cur @ (c # cs)" by simp
      with 1 tight_invariant [of cur "c # cs"] "2.prems"(1) show ?thesis by blast
    next
      case 2
      from "2.IH"(2) [OF Suc _ 2] obtain a b where
        w: "w \<noteq> []" "tight w" and ab: "drop k cs = a @ w @ b" by auto
      have "cur @ c # cs = (cur @ c # take k cs @ a) @ w @ b"
        using ab append_take_drop_id [of k cs] by (metis append.assoc append_Cons)
      with w show ?thesis by blast
    qed
  qed
qed

lemma Fields_word:
  "w \<in> set (Fields s) \<Longrightarrow> w \<noteq> [] \<and> tight w \<and> (\<exists>a b. s = a @ w @ b)"
  using fieldsFrom_tight [of "[]" s w] by (simp add: Fields_def)

lemma Fields_normal: "Fields (joinWith '' '' (Fields s)) = Fields s"
  by (rule Fields_joinWith) (simp add: Fields_word)

subsection \<open>Trimming\<close>

lemma trimLeftSpace_id: "spaceWidth t = 0 \<Longrightarrow> trimLeftSpace t = t"
  by (cases t) simp_all

lemma trimRightSpace_id: "spaceWidthLast t = 0 \<Longrightarrow> trimRightSpace t = t"
  by simp

lemma tight_last3:
  "tight (w @ [c, d, e]) \<Longrightarrow> spaceWidth [c, d, e] = 0 \<and> spaceWidth [d, e] = 0 \<and> spaceWidth [e] = 0"
  using tight_append [of w "[c, d, e]"] by simp

lemma spaceWidthLast_word:
  assumes "w \<noteq> []" "tight w" "x = [] \<or> last x = CHR '' ''"
  shows "spaceWidthLast (x @ w) = 0"
proof -
  from assms(1) obtain w0 e where w: "w = w0 @ [e]" by (cases w rule: rev_cases) auto
  from assms(2) w have e: "spaceWidth [e] = 0" using tight_append [of w0 "[e]"] by simp
  show ?thesis
  proof (cases w0 rule: rev_cases)
    case Nil
    show ?thesis
    proof (cases x rule: rev_cases)
      case Nil
      with \<open>w0 = []\<close> w e show ?thesis by (simp add: spaceWidthLast_def split: if_splits)
    next
      case (snoc x0 s)
      with assms(3) have "s = CHR '' ''" by simp
      with snoc \<open>w0 = []\<close> w e show ?thesis
        by (cases "rev x0") (auto simp: spaceWidthLast_def spaceTail2_def split: if_splits)
    qed
  next
    case (snoc w1 d)
    from assms(2) w snoc have de: "spaceWidth [d, e] = 0"
      using tight_append [of w1 "[d, e]"] by simp
    show ?thesis
    proof (cases w1 rule: rev_cases)
      case Nil
      show ?thesis
      proof (cases x rule: rev_cases)
        case Nil
        with \<open>w1 = []\<close> snoc w e de show ?thesis
          by (auto simp: spaceWidthLast_def split: if_splits)
      next
        case (snoc x0 s)
        with assms(3) have "s = CHR '' ''" by simp
        with snoc \<open>w1 = []\<close> \<open>w0 = w1 @ [d]\<close> w e de show ?thesis
          by (auto simp: spaceWidthLast_def spaceTail2_def split: if_splits)
      qed
    next
      case (snoc w2 c)
      with \<open>w0 = w1 @ [d]\<close> w have w3: "w = w2 @ [c, d, e]" by simp
      from tight_last3 [of w2 c d e] assms(2) w3
      have "spaceWidth [c, d, e] = 0" by simp
      with w3 e de show ?thesis
        by (auto simp: spaceWidthLast_def split: if_splits)
    qed
  qed
qed

lemma joinWith_last:
  "ws \<noteq> [] \<Longrightarrow> \<exists>x. joinWith '' '' ws = x @ last ws \<and> (x = [] \<or> last x = CHR '' '')"
proof (induction ws rule: induct_list012)
  case 1
  then show ?case by simp
next
  case (2 w)
  then show ?case by simp
next
  case (3 w v ws)
  then obtain x where x: "joinWith '' '' (v # ws) = x @ last (v # ws)"
    "x = [] \<or> last x = CHR '' ''" by auto
  have "joinWith '' '' (w # v # ws) = (w @ '' '' @ x) @ last (w # v # ws)"
    using x(1) by simp
  moreover have "last (w @ '' '' @ x) = CHR '' ''" using x(2) by auto
  ultimately show ?case by blast
qed

lemma joinWith_head:
  assumes "\<And>w. w \<in> set ws \<Longrightarrow> w \<noteq> [] \<and> tight w"
  shows "spaceWidth (joinWith '' '' ws) = 0"
proof (cases ws)
  case Nil
  then show ?thesis by simp
next
  case (Cons w vs)
  with assms [of w] have w: "w \<noteq> []" "tight w" by simp_all
  then have w0: "spaceWidth w = 0" by (cases w) simp_all
  show ?thesis
  proof (cases vs)
    case Nil
    with Cons w0 show ?thesis by simp
  next
    case (Cons v us)
    with \<open>ws = w # vs\<close> w w0 show ?thesis
      using spaceWidth_before_space [of w "joinWith '' '' (v # us)"] by simp
  qed
qed

lemma trimSpace_joinWith:
  assumes "\<And>w. w \<in> set ws \<Longrightarrow> w \<noteq> [] \<and> tight w"
  shows "trimSpace (joinWith '' '' ws) = joinWith '' '' ws"
proof (cases "ws = []")
  case True
  then show ?thesis by (simp add: trimSpace_def spaceWidthLast_def)
next
  case False
  from joinWith_last [OF False] obtain x where
    x: "joinWith '' '' ws = x @ last ws" "x = [] \<or> last x = CHR '' ''" by blast
  from assms [of "last ws"] False have "last ws \<noteq> []" "tight (last ws)" by simp_all
  from spaceWidthLast_word [OF this x(2)] x(1)
  have "spaceWidthLast (joinWith '' '' ws) = 0" by simp
  with joinWith_head [OF assms] show ?thesis
    by (simp add: trimSpace_def trimLeftSpace_id del: trimRightSpace.simps add: trimRightSpace_id)
qed

subsection \<open>Texts without a match\<close>

lemma replaceAll_noMatch: "noMatch m s \<Longrightarrow> replaceAll m r s = s"
  by (induction s) simp_all

lemma noMatch_iff:
  "noMatch m s \<longleftrightarrow> (\<forall>a t. s = a @ t \<and> t \<noteq> [] \<longrightarrow> m t = None)"
proof (induction s)
  case Nil
  then show ?case by simp
next
  case (Cons c cs)
  show ?case
  proof
    assume n: "noMatch m (c # cs)"
    show "\<forall>a t. c # cs = a @ t \<and> t \<noteq> [] \<longrightarrow> m t = None"
    proof (intro allI impI)
      fix a t assume h: "c # cs = a @ t \<and> t \<noteq> []"
      show "m t = None"
      proof (cases a)
        case Nil
        with h have "t = c # cs" by simp
        with n show ?thesis by simp
      next
        case (Cons a0 a1)
        with h have "cs = a1 @ t" by simp
        with n h Cons.IH show ?thesis by auto
      qed
    qed
  next
    assume r: "\<forall>a t. c # cs = a @ t \<and> t \<noteq> [] \<longrightarrow> m t = None"
    then have "m (c # cs) = None" by (metis append_Nil list.distinct(1))
    moreover have "\<forall>a t. cs = a @ t \<and> t \<noteq> [] \<longrightarrow> m t = None"
      using r by (metis append_Cons)
    ultimately show "noMatch m (c # cs)" using Cons.IH by simp
  qed
qed

text \<open>A stretch of the output without a space stands in the input as it is.\<close>

lemma replaceAll_prefix:
  "replaceAll m '' '' s = p @ r \<Longrightarrow> CHR '' '' \<notin> set p \<Longrightarrow> \<exists>r'. s = p @ r'"
proof (induction p arbitrary: s r)
  case Nil
  then show ?case by simp
next
  case (Cons a p)
  show ?case
  proof (cases s)
    case Nil
    with Cons.prems show ?thesis by simp
  next
    case (Cons c cs)
    show ?thesis
    proof (cases "m (c # cs)")
      case None
      with Cons Cons.prems(1) have "c = a" "replaceAll m '' '' cs = p @ r" by simp_all
      with Cons.IH [of cs r] Cons.prems(2) Cons show ?thesis by auto
    next
      case (Some n)
      with Cons Cons.prems show ?thesis by simp
    qed
  qed
qed

lemma replaceAll_infix:
  "replaceAll m '' '' s = a @ p @ r \<Longrightarrow> CHR '' '' \<notin> set p \<Longrightarrow> \<exists>a' r'. s = a' @ p @ r'"
proof (induction "length s" arbitrary: s a rule: less_induct)
  case less
  show ?case
  proof (cases a)
    case Nil
    with less.prems replaceAll_prefix [of m s p r] show ?thesis
      by (metis append_Nil)
  next
    case (Cons h a1)
    show ?thesis
    proof (cases s)
      case Nil
      with less.prems Cons show ?thesis by simp
    next
      case s: (Cons c cs)
      show ?thesis
      proof (cases "m (c # cs)")
        case None
        with Cons s less.prems(1) have "replaceAll m '' '' cs = a1 @ p @ r" by simp
        from less.hyps [OF _ this less.prems(2)] s obtain a' r' where "cs = a' @ p @ r'" by auto
        then have "c # cs = (c # a') @ p @ r'" by simp
        with s show ?thesis by blast
      next
        case (Some n)
        with Cons s less.prems(1) have "replaceAll m '' '' (drop (n - 1) cs) = a1 @ p @ r" by auto
        moreover have "length (drop (n - 1) cs) < length s" using s by simp
        ultimately obtain a' r' where "drop (n - 1) cs = a' @ p @ r'"
          using less.hyps [of "drop (n - 1) cs" a1] less.prems(2) by blast
        then have "c # cs = (c # take (n - 1) cs @ a') @ p @ r'"
          using append_take_drop_id [of "n - 1" cs] by (metis append.assoc append_Cons)
        with s show ?thesis by blast
      qed
    qed
  qed
qed

subsection \<open>The text normalizer: URLs and punctuation\<close>

text \<open>Where the URL expression matches, the text starts with a scheme and one more byte
  that is not a space, and every text with this start is matched.\<close>

lemma urlMatch_head:
  assumes "urlMatch t \<noteq> None"
  shows "\<exists>p r. t = p @ r \<and> p \<noteq> [] \<and> CHR '' '' \<notin> set p \<and> (\<forall>r'. urlMatch (p @ r') \<noteq> None)"
proof -
  have key: "\<exists>p r. t = p @ r \<and> p \<noteq> [] \<and> CHR '' '' \<notin> set p \<and> (\<forall>r'. urlMatch (p @ r') \<noteq> None)"
    if pre: "hasPrefix t scheme" and run: "takeWhile (\<lambda>x. \<not> reSpace x) (drop k t) \<noteq> []"
      and k: "k = length scheme"
      and sch: "scheme = ''https://'' \<or> scheme = ''http://''" for scheme k
  proof -
    from pre k have t: "t = scheme @ drop k t"
      by (metis hasPrefix_take append_take_drop_id)
    from run obtain X t2 where d: "drop k t = X # t2" and X: "\<not> reSpace X"
      by (cases "drop k t") (auto split: if_splits)
    have "t = (scheme @ [X]) @ t2" using t d by simp
    moreover have "CHR '' '' \<notin> set (scheme @ [X])" using sch X by (auto simp: reSpace_def)
    moreover have "urlMatch ((scheme @ [X]) @ r') \<noteq> None" for r'
      using sch X by (auto simp: urlMatch_def)
    ultimately show ?thesis by blast
  qed
  show ?thesis
  proof (cases "hasPrefix t ''https://''")
    case True
    with assms have "takeWhile (\<lambda>x. \<not> reSpace x) (drop 8 t) \<noteq> []"
      by (auto simp: urlMatch_def Let_def split: if_splits)
    from key [OF True this] show ?thesis by simp
  next
    case False
    with assms have h: "hasPrefix t ''http://''"
      by (auto simp: urlMatch_def Let_def split: if_splits)
    with assms False have "takeWhile (\<lambda>x. \<not> reSpace x) (drop 7 t) \<noteq> []"
      by (auto simp: urlMatch_def Let_def split: if_splits)
    from key [OF h this] show ?thesis by simp
  qed
qed

lemma urlMatch_space: "urlMatch (CHR '' '' # t) = None"
  by (simp add: urlMatch_def)

lemma no_url_left_aux:
  "replaceAll urlMatch '' '' s = a @ p @ r \<Longrightarrow> p \<noteq> [] \<Longrightarrow> CHR '' '' \<notin> set p \<Longrightarrow>
   (\<And>r'. urlMatch (p @ r') \<noteq> None) \<Longrightarrow> False"
proof (induction "length s" arbitrary: s a rule: less_induct)
  case less
  show ?case
  proof (cases s)
    case Nil
    with less.prems show ?thesis by simp
  next
    case (Cons c cs)
    show ?thesis
    proof (cases "urlMatch (c # cs)")
      case None
      show ?thesis
      proof (cases a)
        case Nil
        with less.prems(1,3) obtain r' where "s = p @ r'"
          using replaceAll_prefix [of urlMatch s p r] by auto
        with None Cons have "urlMatch (p @ r') = None" by simp
        with less.prems(4) show ?thesis by blast
      next
        case a: (Cons h a1)
        with None Cons less.prems(1) have "replaceAll urlMatch '' '' cs = a1 @ p @ r" by simp
        moreover have "length cs < length s" using Cons by simp
        ultimately show ?thesis using less.hyps [of cs a1] less.prems(2,3,4) by blast
      qed
    next
      case (Some n)
      show ?thesis
      proof (cases a)
        case Nil
        with Some Cons less.prems(1,2,3) show ?thesis by (cases p) auto
      next
        case a: (Cons h a1)
        with Some Cons less.prems(1)
        have "replaceAll urlMatch '' '' (drop (n - 1) cs) = a1 @ p @ r" by auto
        moreover have "length (drop (n - 1) cs) < length s" using Cons by simp
        ultimately show ?thesis
          using less.hyps [of "drop (n - 1) cs" a1] less.prems(2,3,4) by blast
      qed
    qed
  qed
qed

lemma no_url_left: "noMatch urlMatch (replaceAll urlMatch '' '' s)"
proof -
  have "urlMatch t = None" if "replaceAll urlMatch '' '' s = a @ t" for a t
  proof (rule ccontr)
    assume "urlMatch t \<noteq> None"
    from urlMatch_head [OF this] obtain p r where
      "t = p @ r" "p \<noteq> []" "CHR '' '' \<notin> set p" "\<And>r'. urlMatch (p @ r') \<noteq> None" by blast
    with that no_url_left_aux [of s a p r] show False by simp
  qed
  then show ?thesis by (simp add: noMatch_iff)
qed

lemma no_url_kept:
  assumes "noMatch urlMatch s"
  shows "noMatch urlMatch (replaceAll m '' '' s)"
proof -
  have "urlMatch t = None" if "replaceAll m '' '' s = a @ t" for a t
  proof (rule ccontr)
    assume "urlMatch t \<noteq> None"
    from urlMatch_head [OF this] obtain p r where
      p: "t = p @ r" "p \<noteq> []" "CHR '' '' \<notin> set p" "\<And>r'. urlMatch (p @ r') \<noteq> None" by blast
    with that have "replaceAll m '' '' s = a @ p @ r" by simp
    from replaceAll_infix [OF this p(3)] obtain a' r' where "s = a' @ (p @ r')" by auto
    with assms p(2) have "urlMatch (p @ r') = None" by (simp add: noMatch_iff)
    with p(4) show False by blast
  qed
  then show ?thesis by (simp add: noMatch_iff)
qed

lemma no_punct_left: "c \<in> set (replaceAll punctRun '' '' s) \<Longrightarrow> \<not> isPunct c"
proof (induction "length s" arbitrary: s rule: less_induct)
  case less
  show ?case
  proof (cases s)
    case Nil
    with less.prems show ?thesis by simp
  next
    case (Cons c0 cs)
    show ?thesis
    proof (cases "punctRun (c0 # cs)")
      case None
      then have "\<not> isPunct c0" by (auto simp: punctRun_def Let_def split: if_splits)
      moreover have "length cs < length s" using Cons by simp
      ultimately show ?thesis using None Cons less.prems less.hyps [of cs] by auto
    next
      case (Some n)
      have "length (drop (n - 1) cs) < length s" using Cons by simp
      with Some Cons less.prems less.hyps [of "drop (n - 1) cs"] show ?thesis
        by (auto simp: isPunct_def)
    qed
  qed
qed

lemma noMatch_punct: "(\<And>c. c \<in> set s \<Longrightarrow> \<not> isPunct c) \<Longrightarrow> noMatch punctRun s"
  by (induction s) (auto simp: punctRun_def)

subsection \<open>Joined fields\<close>

lemma word_prefix:
  "w @ CHR '' '' # rest = p @ r \<Longrightarrow> CHR '' '' \<notin> set p \<Longrightarrow> \<exists>r'. w = p @ r'"
proof (induction p arbitrary: w r)
  case Nil
  then show ?case by simp
next
  case (Cons x p)
  then show ?case by (cases w) auto
qed

lemma word_infix:
  "w @ CHR '' '' # rest = a @ p @ r \<Longrightarrow> p \<noteq> [] \<Longrightarrow> CHR '' '' \<notin> set p \<Longrightarrow>
   (\<exists>a' r'. w = a' @ p @ r') \<or> (\<exists>a'. rest = a' @ p @ r)"
proof (induction w arbitrary: a)
  case Nil
  then show ?case by (cases a; cases p) auto
next
  case (Cons c w)
  show ?case
  proof (cases a)
    case Nil
    with Cons.prems word_prefix [of "c # w" rest p r] show ?thesis by (metis append_Nil)
  next
    case a: (Cons h a1)
    with Cons.prems(1) have "w @ CHR '' '' # rest = a1 @ p @ r" by simp
    from Cons.IH [OF this Cons.prems(2,3)] show ?thesis
    proof
      assume "\<exists>a' r'. w = a' @ p @ r'"
      then obtain a' r' where "w = a' @ p @ r'" by blast
      then have "c # w = (c # a') @ p @ r'" by simp
      then show ?thesis by blast
    next
      assume "\<exists>a'. rest = a' @ p @ r"
      then show ?thesis by blast
    qed
  qed
qed

lemma joinWith_infix:
  "joinWith '' '' ws = a @ p @ r \<Longrightarrow> p \<noteq> [] \<Longrightarrow> CHR '' '' \<notin> set p \<Longrightarrow>
   \<exists>w \<in> set ws. \<exists>a' r'. w = a' @ p @ r'"
proof (induction ws arbitrary: a rule: induct_list012)
  case 1
  then show ?case by simp
next
  case (2 w)
  then show ?case by auto
next
  case (3 w v ws)
  from "3.prems"(1) have "w @ CHR '' '' # joinWith '' '' (v # ws) = a @ p @ r" by simp
  from word_infix [OF this "3.prems"(2,3)] show ?case
  proof
    assume "\<exists>a' r'. w = a' @ p @ r'"
    then show ?thesis by auto
  next
    assume "\<exists>a'. joinWith '' '' (v # ws) = a' @ p @ r"
    then obtain a' where "joinWith '' '' (v # ws) = a' @ p @ r" by blast
    from "3.IH"(2) [OF this "3.prems"(2,3)] show ?thesis by auto
  qed
qed

lemma no_url_joined:
  assumes "noMatch urlMatch s"
  shows "noMatch urlMatch (joinWith '' '' (Fields s))"
proof -
  have "urlMatch t = None" if "joinWith '' '' (Fields s) = a @ t" for a t
  proof (rule ccontr)
    assume "urlMatch t \<noteq> None"
    from urlMatch_head [OF this] obtain p r where
      p: "t = p @ r" "p \<noteq> []" "CHR '' '' \<notin> set p" "\<And>r'. urlMatch (p @ r') \<noteq> None" by blast
    with that have "joinWith '' '' (Fields s) = a @ p @ r" by simp
    from joinWith_infix [OF this p(2,3)] obtain w a' r' where
      w: "w \<in> set (Fields s)" "w = a' @ p @ r'" by blast
    from Fields_word [OF w(1)] obtain a2 b2 where "s = a2 @ w @ b2" by blast
    with w(2) have "s = (a2 @ a') @ (p @ r' @ b2)" by simp
    with assms p(2) have "urlMatch (p @ r' @ b2) = None"
      unfolding noMatch_iff by (metis append_is_Nil_conv)
    with p(4) show False by blast
  qed
  then show ?thesis by (simp add: noMatch_iff)
qed

lemma set_joinWith: "set (joinWith '' '' ws) \<subseteq> insert CHR '' '' (\<Union>w \<in> set ws. set w)"
  by (induction ws rule: induct_list012) auto

lemma set_joined_Fields: "set (joinWith '' '' (Fields s)) \<subseteq> insert CHR '' '' (set s)"
proof -
  have "set w \<subseteq> set s" if "w \<in> set (Fields s)" for w
    using Fields_word [OF that] by auto
  with set_joinWith [of "Fields s"] show ?thesis by blast
qed

lemma set_replaceAll: "set (replaceAll m '' '' s) \<subseteq> insert CHR '' '' (set s)"
proof (induction "length s" arbitrary: s rule: less_induct)
  case less
  show ?case
  proof (cases s)
    case Nil
    then show ?thesis by simp
  next
    case (Cons c cs)
    show ?thesis
    proof (cases "m (c # cs)")
      case None
      with Cons less.hyps [of cs] show ?thesis by auto
    next
      case (Some n)
      have "length (drop (n - 1) cs) < length s" using Cons by simp
      from less.hyps [OF this] have "set (replaceAll m '' '' (drop (n - 1) cs)) \<subseteq> insert CHR '' '' (set cs)"
        using set_drop_subset [of "n - 1" cs] by blast
      with Some Cons show ?thesis by auto
    qed
  qed
qed

subsection \<open>The text normalizer: a second pass\<close>

lemma noMatch_no_backtick:
  "backtick \<notin> set s \<Longrightarrow> noMatch fencedBlock s \<and> noMatch inlineCode s"
  by (induction s) (auto simp: fencedBlock_def fence_def inlineCode_def)

text \<open>What every output of the normalizer satisfies.\<close>

lemma cleanTextForAnalysis_output:
  shows "noMatch urlMatch (cleanTextForAnalysis text)"
    and "noMatch punctRun (cleanTextForAnalysis text)"
    and "joinWith '' '' (Fields (cleanTextForAnalysis text)) = cleanTextForAnalysis text"
    and "trimSpace (cleanTextForAnalysis text) = cleanTextForAnalysis text"
    and "set (cleanTextForAnalysis text) \<subseteq> insert CHR '' '' (set text)"
proof -
  define s1 where "s1 = replaceAll fencedBlock '' '' text"
  define s2 where "s2 = replaceAll inlineCode '' '' s1"
  define s3 where "s3 = replaceAll urlMatch '' '' s2"
  define s4 where "s4 = replaceAll punctRun '' '' s3"
  define out where "out = joinWith '' '' (Fields s4)"
  have words: "w \<noteq> [] \<and> tight w" if "w \<in> set (Fields s4)" for w
    using Fields_word [OF that] by simp
  have trim: "trimSpace out = out"
    unfolding out_def by (rule trimSpace_joinWith) (rule words)
  have "cleanTextForAnalysis text = trimSpace out"
    by (simp add: cleanTextForAnalysis_def Let_def out_def s4_def s3_def s2_def s1_def)
  with trim have clean: "cleanTextForAnalysis text = out" by simp
  have url: "noMatch urlMatch out"
    unfolding out_def s4_def s3_def by (intro no_url_joined no_url_kept no_url_left)
  have "\<not> isPunct c" if "c \<in> set out" for c
  proof -
    from that set_joined_Fields [of s4] have "c = CHR '' '' \<or> c \<in> set s4"
      unfolding out_def by blast
    then show ?thesis
      using no_punct_left [of c s3] by (auto simp: s4_def isPunct_def)
  qed
  then have punct: "noMatch punctRun out" by (rule noMatch_punct)
  have norm: "joinWith '' '' (Fields out) = out"
    unfolding out_def by (simp add: Fields_normal)
  have "set out \<subseteq> insert CHR '' '' (set s4)" unfolding out_def by (rule set_joined_Fields)
  also have "\<dots> \<subseteq> insert CHR '' '' (set s3)" unfolding s4_def using set_replaceAll by blast
  also have "\<dots> \<subseteq> insert CHR '' '' (set s2)" unfolding s3_def using set_replaceAll by blast
  also have "\<dots> \<subseteq> insert CHR '' '' (set s1)" unfolding s2_def using set_replaceAll by blast
  also have "\<dots> \<subseteq> insert CHR '' '' (set text)" unfolding s1_def using set_replaceAll by blast
  finally have sub: "set out \<subseteq> insert CHR '' '' (set text)" .
  from clean url show "noMatch urlMatch (cleanTextForAnalysis text)" by simp
  from clean punct show "noMatch punctRun (cleanTextForAnalysis text)" by simp
  from clean norm show "joinWith '' '' (Fields (cleanTextForAnalysis text)) = cleanTextForAnalysis text"
    by simp
  from clean trim show "trimSpace (cleanTextForAnalysis text) = cleanTextForAnalysis text" by simp
  from clean sub show "set (cleanTextForAnalysis text) \<subseteq> insert CHR '' '' (set text)" by simp
qed

text \<open>
  A code span between double backticks: the inline-code step replaces the inner span by
  a space and leaves a backtick on each side, which a second pass reads as a code span
  of its own. The second pass returns the empty string, not the output of the first.
\<close>

theorem normalizer_idempotent_counterexample:
  "cleanTextForAnalysis doubleBackticks = [backtick, CHR '' '', backtick] \<and>
   cleanTextForAnalysis (cleanTextForAnalysis doubleBackticks) = [] \<and>
   cleanTextForAnalysis (cleanTextForAnalysis doubleBackticks) \<noteq>
     cleanTextForAnalysis doubleBackticks"
  by code_simp

text \<open>
  Claim C6, amended. Normalizing a normalized text returns it unchanged whenever the
  normalized text has no code span left, that is, neither code expression matches in
  it; this is so for every input without a backtick.
\<close>

theorem normalizer_idempotent:
  assumes "backtick \<notin> set text \<or>
           (noMatch fencedBlock (cleanTextForAnalysis text) \<and>
            noMatch inlineCode (cleanTextForAnalysis text))"
  shows "cleanTextForAnalysis (cleanTextForAnalysis text) = cleanTextForAnalysis text"
proof -
  let ?out = "cleanTextForAnalysis text"
  have code: "noMatch fencedBlock ?out \<and> noMatch inlineCode ?out"
  proof (cases "backtick \<notin> set text")
    case True
    with cleanTextForAnalysis_output [of "text"] have "backtick \<notin> set ?out" by auto
    then show ?thesis by (rule noMatch_no_backtick)
  next
    case False
    with assms show ?thesis by simp
  qed
  have "cleanTextForAnalysis ?out =
        trimSpace (joinWith '' '' (Fields ?out))"
    using code cleanTextForAnalysis_output [of "text"]
    by (simp add: cleanTextForAnalysis_def [of ?out] Let_def replaceAll_noMatch)
  with cleanTextForAnalysis_output [of "text"] show ?thesis by simp
qed

theorem normalizer_idempotent_witness:
  "backtick \<notin> set ''see https://x.y/z?q=1 and  **bold** # head  '' \<and>
   cleanTextForAnalysis ''see https://x.y/z?q=1 and  **bold** # head  '' = ''see and bold head'' \<and>
   cleanTextForAnalysis (cleanTextForAnalysis ''see https://x.y/z?q=1 and  **bold** # head  '') =
     cleanTextForAnalysis ''see https://x.y/z?q=1 and  **bold** # head  ''"
proof -
  have h: "backtick \<notin> set ''see https://x.y/z?q=1 and  **bold** # head  ''" by simp
  have v: "cleanTextForAnalysis ''see https://x.y/z?q=1 and  **bold** # head  '' = ''see and bold head''"
    by code_simp
  from normalizer_idempotent [of "''see https://x.y/z?q=1 and  **bold** # head  ''"] h v
  show ?thesis by blast
qed

end
